theory Spec2Isabelle
  imports Complex_Main "HOL-Library.AList"
begin

unbundle bit_operations_syntax

section \<open>The width converter of \<open>convert_font.py\<close>\<close>

text \<open>
  A shallow embedding of the class \<open>WidthConverter\<close>. Conventions:
  \<^item> A Python character (a string of length one) is its code point, a \<open>nat\<close>.
  \<^item> A Python \<open>int\<close> is an \<open>int\<close>; a Python \<open>float\<close> is a \<open>real\<close>, so float
    arithmetic is exact here (rounding, infinities and NaN are not modelled).
  \<^item> A Python \<open>dict\<close> keyed by characters is an association list in insertion order;
    \<open>d[k] = v\<close> is \<open>AList.update k v d\<close> (replace in place, else append).
  \<^item> An exception is \<open>Inl\<close> of an \<open>error\<close>; \<open>None\<close> is the option \<open>None\<close>.
  \<^item> The file system is a map from path strings to decoded files, threaded through the
    conversion together with the list of paths written so far.
\<close>

subsection \<open>Values and errors\<close>

type_synonym uchar = nat

datatype pynum = PInt int | PFloat real

fun num_val :: "pynum \<Rightarrow> real" where
  "num_val (PInt i) = real_of_int i"
| "num_val (PFloat r) = r"

datatype error =
    ValueError
  | ZeroDivisionError
  | IndexError
  | KeyError
  | UnboundLocalError
  | RecursionError
  | FileNotFoundError string
  | BadFileError string
  | UnknownProviderType string

text \<open>Python's \<open>int(x)\<close> on a float truncates toward zero.\<close>

definition trunc :: "real \<Rightarrow> int" where
  "trunc x = (if 0 \<le> x then \<lfloor>x\<rfloor> else \<lceil>x\<rceil>)"

text \<open>\<open>int.bit_length()\<close>: the number of binary digits of the absolute value.\<close>

fun nat_bit_length :: "nat \<Rightarrow> nat" where
  "nat_bit_length n = (if n = 0 then 0 else Suc (nat_bit_length (n div 2)))"

declare nat_bit_length.simps [simp del]

definition bit_length :: "int \<Rightarrow> nat" where
  "bit_length i = nat_bit_length (nat \<bar>i\<bar>)"

text \<open>
  \<open>int(s, 16)\<close> on a string of hexadecimal digits. The empty string raises
  \<open>ValueError\<close>, as does any character that is not a hexadecimal digit (the signs,
  prefixes, underscores and surrounding blanks that Python also accepts do not occur in
  a unihex bitmap and are rejected here).
\<close>

definition hex_digit :: "char \<Rightarrow> nat option" where
  "hex_digit c =
     (let n = (of_char c :: nat) in
      if 48 \<le> n \<and> n \<le> 57 then Some (n - 48)
      else if 97 \<le> n \<and> n \<le> 102 then Some (n - 87)
      else if 65 \<le> n \<and> n \<le> 70 then Some (n - 55)
      else None)"

fun hex_acc :: "nat \<Rightarrow> string \<Rightarrow> nat option" where
  "hex_acc acc [] = Some acc"
| "hex_acc acc (c # cs) =
     (case hex_digit c of None \<Rightarrow> None | Some d \<Rightarrow> hex_acc (16 * acc + d) cs)"

definition int16 :: "string \<Rightarrow> error + int" where
  "int16 s =
     (if s = [] then Inl ValueError
      else case hex_acc 0 s of None \<Rightarrow> Inl ValueError | Some n \<Rightarrow> Inr (int n))"

text \<open>The slice \<open>xs[a:b]\<close> for \<open>0 \<le> a \<le> b\<close>.\<close>

definition py_slice :: "'a list \<Rightarrow> nat \<Rightarrow> nat \<Rightarrow> 'a list" where
  "py_slice xs a b = take (b - a) (drop a xs)"

subsection \<open>\<open>read_hex_bitmap\<close>\<close>

text \<open>
  The loop \<open>for i in range(16)\<close> of \<open>read_hex_bitmap\<close>, with the pair
  \<open>(min_pixel, max_pixel)\<close> as its state.
\<close>

fun read_hex_rows :: "string \<Rightarrow> nat \<Rightarrow> nat list \<Rightarrow> int \<times> int \<Rightarrow> error + (int \<times> int)" where
  "read_hex_rows img row_len [] (min_pixel, max_pixel) = Inr (min_pixel, max_pixel)"
| "read_hex_rows img row_len (i # rest) (min_pixel, max_pixel) =
     (case int16 (py_slice img (i * row_len) ((i + 1) * row_len)) of
        Inl e \<Rightarrow> Inl e
      | Inr row \<Rightarrow>
          if row = 0 then read_hex_rows img row_len rest (min_pixel, max_pixel)
          else
            let low = int (bit_length (row AND (- row)));
                min_pixel' = min low min_pixel;
                high = int (bit_length row);
                max_pixel' = max high max_pixel
            in read_hex_rows img row_len rest (min_pixel', max_pixel'))"

definition read_hex_bitmap :: "string \<Rightarrow> error + int" where
  "read_hex_bitmap img =
     (let row_len = length img div 16 in
      case read_hex_rows img row_len [0..<16] (int (row_len * 4), - 1) of
        Inl e \<Rightarrow> Inl e
      | Inr (min_pixel, max_pixel) \<Rightarrow>
          Inr (if max_pixel = - 1 then 0 else max_pixel - min_pixel + 1))"

text \<open>
  The extent as the specification words it, over the sixteen rows of a bitmap: the
  largest \<open>bit_length(row)\<close> minus the smallest \<open>bit_length(row & -row)\<close> plus one over
  the non-zero rows, and \<open>0\<close> when every row is zero.
\<close>

definition hex_value :: "string \<Rightarrow> int" where
  "hex_value s = int (the (hex_acc 0 s))"

definition bitmap_rows :: "string \<Rightarrow> int list" where
  "bitmap_rows img =
     map (\<lambda>i. hex_value (py_slice img (i * (length img div 16)) ((i + 1) * (length img div 16))))
       [0..<16]"

definition extent_of_rows :: "int list \<Rightarrow> int" where
  "extent_of_rows rows =
     (let nz = filter (\<lambda>r. r \<noteq> 0) rows in
      if nz = [] then 0
      else Max (set (map (\<lambda>r. int (bit_length r)) nz))
           - Min (set (map (\<lambda>r. int (bit_length (r AND (- r)))) nz)) + 1)"

text \<open>Row \<open>i\<close> of a bitmap whose rows are \<open>row_len\<close> digits wide.\<close>

definition row_at :: "string \<Rightarrow> nat \<Rightarrow> nat \<Rightarrow> int" where
  "row_at img row_len i = hex_value (py_slice img (i * row_len) ((i + 1) * row_len))"

subsection \<open>Providers, files and the converter\<close>

text \<open>
  A provider is a JSON object tagged by its \<open>"type"\<close>; the datatype holds the fields
  each conversion reads (optional ones as options, with the default applied where the
  source applies it) and keeps any other tag as \<open>OtherKind\<close>. The optional
  \<open>"filter"\<close> is opaque text. A size override is the tuple of its four fields.
\<close>

record size_override =
  ov_from :: uchar
  ov_to :: uchar
  ov_left :: int
  ov_right :: int

datatype kind =
    Reference string
  | Space "(uchar \<times> pynum) list"
  | Ttf string "nat option" "nat option" "uchar list"
  | Bitmap string "uchar list list" "int option"
  | Unihex string "size_override list"
  | OtherKind string

record provider =
  kind :: kind
  pfilter :: "string option"

text \<open>
  A decoded RGBA image: its size and the alpha channel of each pixel. A vector font
  face gives, for a pixel size, the characters it defines with the value of
  \<open>glyph.advance.x\<close> after loading each glyph unhinted. An archive is its entries in
  order, each a file name with its lines already split at the colon and the code point
  parsed from hexadecimal.
\<close>

record rgba_image =
  img_width :: nat
  img_height :: nat
  alpha :: "nat \<Rightarrow> nat \<Rightarrow> nat"

datatype resource =
    FontJson "provider list"
  | ImageFile rgba_image
  | FaceFile "nat \<Rightarrow> (nat \<times> int) list"
  | ZipFile "(string \<times> (nat \<times> string) list) list"

text \<open>
  The state of a run: the files by their path, and the paths of the font definitions
  written so far, in the order of the writes.
\<close>

record world =
  files :: "string \<rightharpoonup> resource"
  written :: "string list"

datatype unihex_mode = ModeNone | ModeAscii | ModeAllNamed | ModeAll

text \<open>
  The fields of \<open>self\<close> after \<open>__init__\<close> (the verbosity flag only prints). The
  factor is a float, as the command line parses it, so every converted advance is a float
  before \<open>assure_integers\<close>. The mode is one of the four choices of the command line.
\<close>

record converter =
  suffix :: string
  width_factor :: real
  target_pack_folder :: string
  fallback_pack_folder :: "string option"
  unihex_mode :: unihex_mode

subsection \<open>Resource paths\<close>

text \<open>\<open>str.split(sep)\<close> for a separator of one character.\<close>

fun split_on :: "char \<Rightarrow> string \<Rightarrow> string list" where
  "split_on sep [] = [[]]"
| "split_on sep (c # cs) =
     (if c = sep then [] # split_on sep cs
      else case split_on sep cs of
             w # ws \<Rightarrow> (c # w) # ws
           | [] \<Rightarrow> [[c]])"

text \<open>\<open>os.path.join\<close> as POSIX defines it.\<close>

definition join_step :: "string \<Rightarrow> string \<Rightarrow> string" where
  "join_step path b =
     (if b \<noteq> [] \<and> hd b = CHR ''/'' then b
      else if path = [] \<or> last path = CHR ''/'' then path @ b
      else path @ ''/'' @ b)"

definition path_join :: "string \<Rightarrow> string list \<Rightarrow> string" where
  "path_join a ps = foldl join_step a ps"

definition isfile :: "(string \<rightharpoonup> resource) \<Rightarrow> string \<Rightarrow> bool" where
  "isfile fs path = (fs path \<noteq> None)"

text \<open>The last argument is \<open>True\<close> for \<open>mode == "w"\<close>.\<close>

definition get_resource_path ::
  "converter \<Rightarrow> (string \<rightharpoonup> resource) \<Rightarrow> string \<Rightarrow> string \<Rightarrow> string \<Rightarrow> bool \<Rightarrow> error + string" where
  "get_resource_path self fs resource_id resource_type extension write =
     (case (if CHR '':'' \<in> set resource_id
            then (case split_on CHR '':'' resource_id of
                    [namespace, location] \<Rightarrow> Inr (namespace, location)
                  | _ \<Rightarrow> Inl ValueError)
            else Inr (''minecraft'', resource_id)) of
        Inl e \<Rightarrow> Inl e
      | Inr (namespace, location0) \<Rightarrow>
          let location = location0 @ extension;
              path = path_join ''assets''
                       ([namespace, resource_type] @ split_on CHR ''/'' location);
              target_path = path_join (target_pack_folder self) [path]
          in Inr (if write \<or> fallback_pack_folder self = None
                     \<or> fallback_pack_folder self = Some []
                     \<or> isfile fs target_path
                  then target_path
                  else path_join (the (fallback_pack_folder self)) [path]))"

definition get_font_path ::
  "converter \<Rightarrow> (string \<rightharpoonup> resource) \<Rightarrow> string \<Rightarrow> bool \<Rightarrow> error + string" where
  "get_font_path self fs font_id write =
     get_resource_path self fs font_id ''font'' ''.json'' write"

subsection \<open>Dictionaries and \<open>assure_integers\<close>\<close>

type_synonym advances = "(uchar \<times> pynum) list"

text \<open>\<open>d.update(e)\<close>: the entries of \<open>e\<close> are stored into \<open>d\<close> in their order.\<close>

definition dict_update :: "advances \<Rightarrow> advances \<Rightarrow> advances" where
  "dict_update d e = fold (\<lambda>(k, v). AList.update k v) e d"

text \<open>
  \<open>x.is_integer()\<close> and \<open>int(x)\<close>. On an \<open>int\<close>, \<open>is_integer\<close> is \<open>True\<close> (the method
  exists on \<open>int\<close> from Python 3.12 on).
\<close>

fun is_integer :: "pynum \<Rightarrow> bool" where
  "is_integer (PInt i) = True"
| "is_integer (PFloat r) = (real_of_int \<lfloor>r\<rfloor> = r)"

fun to_int :: "pynum \<Rightarrow> pynum" where
  "to_int (PInt i) = PInt i"
| "to_int (PFloat r) = PInt (trunc r)"

text \<open>
  The body of the loop \<open>for k in advances\<close>, on the value stored at \<open>k\<close>. The loop
  replaces the value stored at each key; keys are unique in a dictionary, so it is a map
  over the entries.
\<close>

definition assure_value :: "pynum \<Rightarrow> pynum" where
  "assure_value v = (if is_integer v then to_int v else v)"

definition assure_integers :: "provider \<Rightarrow> provider" where
  "assure_integers provider =
     (case kind provider of
        Space advances \<Rightarrow>
          provider\<lparr>kind := Space (map (\<lambda>(k, v). (k, assure_value v)) advances)\<rparr>
      | _ \<Rightarrow> provider)"

subsection \<open>Space and vector-font providers\<close>

text \<open>A dictionary literal without a \<open>"filter"\<close> key.\<close>

definition space_provider :: "advances \<Rightarrow> provider" where
  "space_provider advances = \<lparr>kind = Space advances, pfilter = None\<rparr>"

definition convert_space_provider :: "converter \<Rightarrow> advances \<Rightarrow> provider" where
  "convert_space_provider self advances =
     space_provider
       (fold (\<lambda>(key, v). AList.update key (PFloat (num_val v * width_factor self)))
          advances [])"

text \<open>\<open>chr(code)\<close> raises \<open>ValueError\<close> outside the Unicode range.\<close>

definition chr_ok :: "nat \<Rightarrow> bool" where
  "chr_ok code = (code < 1114112)"

fun ttf_chars ::
  "converter \<Rightarrow> nat \<Rightarrow> uchar list \<Rightarrow> (nat \<times> int) list \<Rightarrow> advances \<Rightarrow> error + advances" where
  "ttf_chars self oversample skip [] advances = Inr advances"
| "ttf_chars self oversample skip ((code, advance_x) # rest) advances =
     (if \<not> chr_ok code then Inl ValueError
      else if code \<in> set skip then ttf_chars self oversample skip rest advances
      else if oversample = 0 then Inl ZeroDivisionError
      else ttf_chars self oversample skip rest
             (AList.update code
                (PFloat (real_of_int advance_x / 64 / real oversample * width_factor self))
                advances))"

definition convert_ttf_provider ::
  "converter \<Rightarrow> (string \<rightharpoonup> resource) \<Rightarrow> string \<Rightarrow> nat option \<Rightarrow> nat option \<Rightarrow> uchar list
     \<Rightarrow> error + provider" where
  "convert_ttf_provider self fs file size_opt oversample_opt skip =
     (case get_resource_path self fs file ''font'' [] False of
        Inl e \<Rightarrow> Inl e
      | Inr path \<Rightarrow>
          let size = (case size_opt of None \<Rightarrow> 11 | Some n \<Rightarrow> n);
              oversample = (case oversample_opt of None \<Rightarrow> 1 | Some n \<Rightarrow> n)
          in case fs path of
               None \<Rightarrow> Inl (FileNotFoundError path)
             | Some (FaceFile face) \<Rightarrow>
                 (case ttf_chars self oversample skip (face (size * oversample)) [] of
                    Inl e \<Rightarrow> Inl e
                  | Inr advances \<Rightarrow> Inr (space_provider advances))
             | Some _ \<Rightarrow> Inl (BadFileError path))"

subsection \<open>Bitmap providers\<close>

text \<open>\<open>img.getpixel((x, y))[-1]\<close>, which raises outside the image.\<close>

definition getpixel_alpha :: "rgba_image \<Rightarrow> nat \<Rightarrow> nat \<Rightarrow> error + nat" where
  "getpixel_alpha img x y =
     (if x < img_width img \<and> y < img_height img then Inr (alpha img x y) else Inl IndexError)"

fun scan_rows :: "rgba_image \<Rightarrow> nat \<Rightarrow> nat \<Rightarrow> nat list \<Rightarrow> error + bool" where
  "scan_rows img start_x start_y [] = Inr False"
| "scan_rows img start_x start_y (i # rest) =
     (case getpixel_alpha img start_x (start_y + i) of
        Inl e \<Rightarrow> Inl e
      | Inr a \<Rightarrow> if a \<noteq> 0 then Inr True else scan_rows img start_x start_y rest)"

definition scan_bitmap_col :: "rgba_image \<Rightarrow> nat \<Rightarrow> nat \<Rightarrow> nat \<Rightarrow> error + bool" where
  "scan_bitmap_col img start_x start_y height = scan_rows img start_x start_y [0..<height]"

text \<open>
  The loop \<open>for i in range(char_width-1, -1, -1)\<close> with its \<open>else\<close> branch: the width
  found in the cell at \<open>(cursor_x, cursor_y)\<close>.
\<close>

fun scan_cols :: "rgba_image \<Rightarrow> nat \<Rightarrow> nat \<Rightarrow> nat \<Rightarrow> nat list \<Rightarrow> error + nat" where
  "scan_cols img cursor_x cursor_y char_height [] = Inr 0"
| "scan_cols img cursor_x cursor_y char_height (i # rest) =
     (case scan_bitmap_col img (cursor_x + i) cursor_y char_height of
        Inl e \<Rightarrow> Inl e
      | Inr scan \<Rightarrow>
          if scan then Inr (i + 1) else scan_cols img cursor_x cursor_y char_height rest)"

text \<open>The body of the loop over a line, for a cell whose character is not skipped.\<close>

definition cell_advance ::
  "converter \<Rightarrow> rgba_image \<Rightarrow> int \<Rightarrow> nat \<Rightarrow> nat \<Rightarrow> nat \<Rightarrow> nat \<Rightarrow> error + pynum" where
  "cell_advance self img height char_width char_height x y =
     (let cursor_x = x * char_width;
          cursor_y = y * char_height
      in case scan_cols img cursor_x cursor_y char_height (rev [0..<char_width]) of
           Inl e \<Rightarrow> Inl e
         | Inr width \<Rightarrow>
             if char_height = 0 then Inl ZeroDivisionError
             else Inr (PFloat (real_of_int
                    (trunc (0.5 + real width * real_of_int height / real char_height) + 1)
                    * width_factor self)))"

fun bitmap_row ::
  "converter \<Rightarrow> rgba_image \<Rightarrow> int \<Rightarrow> nat \<Rightarrow> nat \<Rightarrow> nat \<Rightarrow> (nat \<times> uchar) list \<Rightarrow> advances
     \<Rightarrow> error + advances" where
  "bitmap_row self img height char_width char_height y [] result = Inr result"
| "bitmap_row self img height char_width char_height y ((x, char) # rest) result =
     (if char = 0 \<or> char = 32
      then bitmap_row self img height char_width char_height y rest result
      else case cell_advance self img height char_width char_height x y of
             Inl e \<Rightarrow> Inl e
           | Inr a \<Rightarrow>
               bitmap_row self img height char_width char_height y rest
                 (AList.update char a result))"

fun bitmap_lines ::
  "converter \<Rightarrow> rgba_image \<Rightarrow> int \<Rightarrow> nat \<Rightarrow> (nat \<times> uchar list) list \<Rightarrow> advances
     \<Rightarrow> error + advances" where
  "bitmap_lines self img height num_rows [] result = Inr result"
| "bitmap_lines self img height num_rows ((y, line) # rest) result =
     (let num_cols = length line in
      if num_rows = 0 \<or> num_cols = 0 then Inl ZeroDivisionError
      else
        let char_height = img_height img div num_rows;
            char_width = img_width img div num_cols
        in case bitmap_row self img height char_width char_height y (enumerate 0 line) result of
             Inl e \<Rightarrow> Inl e
           | Inr result' \<Rightarrow> bitmap_lines self img height num_rows rest result')"

definition convert_bitmap_provider ::
  "converter \<Rightarrow> (string \<rightharpoonup> resource) \<Rightarrow> string \<Rightarrow> uchar list list \<Rightarrow> int option
     \<Rightarrow> error + provider" where
  "convert_bitmap_provider self fs file chars height_opt =
     (case get_resource_path self fs file ''textures'' [] False of
        Inl e \<Rightarrow> Inl e
      | Inr path \<Rightarrow>
          let height = (case height_opt of None \<Rightarrow> 8 | Some h \<Rightarrow> h)
          in case fs path of
               None \<Rightarrow> Inl (FileNotFoundError path)
             | Some (ImageFile img) \<Rightarrow>
                 (case bitmap_lines self img height (length chars) (enumerate 0 chars) [] of
                    Inl e \<Rightarrow> Inl e
                  | Inr result \<Rightarrow> Inr (space_provider result))
             | Some _ \<Rightarrow> Inl (BadFileError path))"

subsection \<open>Unihex providers\<close>

text \<open>The archive loop keeps the content of the last entry whose name ends in \<open>.hex\<close>.\<close>

definition endswith :: "string \<Rightarrow> string \<Rightarrow> bool" where
  "endswith s suf = (length suf \<le> length s \<and> drop (length s - length suf) s = suf)"

definition find_hex :: "(string \<times> (nat \<times> string) list) list \<Rightarrow> (nat \<times> string) list option" where
  "find_hex entries =
     (case filter (\<lambda>(filename, content). endswith filename ''.hex'') entries of
        [] \<Rightarrow> None
      | es \<Rightarrow> Some (snd (last es)))"

definition make_override :: "size_override \<Rightarrow> nat \<times> nat \<times> int" where
  "make_override override =
     (let min_code = ov_from override;
          max_code = ov_to override;
          diff = ov_right override - ov_left override;
          width = (if min_code = max_code \<and> max_code = 0 then 0 else diff + 1)
      in (min_code, max_code, width))"

text \<open>The inner \<open>for\<close> over the overrides: the width of the first range holding the code.\<close>

fun find_override :: "(nat \<times> nat \<times> int) list \<Rightarrow> nat \<Rightarrow> int option" where
  "find_override [] code = None"
| "find_override ((min_code, max_code, override_width) # rest) code =
     (if min_code \<le> code \<and> code \<le> max_code then Some override_width
      else find_override rest code)"

text \<open>
  The body of the loop over the lines up to the assignment: \<open>None\<close> where the source
  continues with the next line, else the width.
\<close>

definition unihex_width ::
  "unihex_mode \<Rightarrow> (nat \<times> nat \<times> int) list \<Rightarrow> nat \<Rightarrow> string \<Rightarrow> error + int option" where
  "unihex_width mode overrides code img =
     (if mode = ModeAscii \<and> code > 256 then Inr None
      else case find_override overrides code of
             Some override_width \<Rightarrow> Inr (Some override_width)
           | None \<Rightarrow>
               if mode = ModeAllNamed \<and> code > 256 then Inr None
               else case read_hex_bitmap img of
                      Inl e \<Rightarrow> Inl e
                    | Inr width \<Rightarrow> Inr (Some width))"

definition unihex_advance :: "converter \<Rightarrow> int \<Rightarrow> pynum" where
  "unihex_advance self width =
     PFloat (real_of_int (trunc (0.5 * real_of_int width) + 1) * width_factor self)"

fun unihex_lines ::
  "converter \<Rightarrow> (nat \<times> nat \<times> int) list \<Rightarrow> (nat \<times> string) list \<Rightarrow> advances \<Rightarrow> error + advances" where
  "unihex_lines self overrides [] advances = Inr advances"
| "unihex_lines self overrides ((code, img) # rest) advances =
     (case unihex_width (unihex_mode self) overrides code img of
        Inl e \<Rightarrow> Inl e
      | Inr None \<Rightarrow> unihex_lines self overrides rest advances
      | Inr (Some width) \<Rightarrow>
          if \<not> chr_ok code then Inl ValueError
          else unihex_lines self overrides rest
                 (AList.update code (unihex_advance self width) advances))"

definition convert_unihex_provider ::
  "converter \<Rightarrow> (string \<rightharpoonup> resource) \<Rightarrow> string \<Rightarrow> size_override list
     \<Rightarrow> error + provider option" where
  "convert_unihex_provider self fs hex_file size_overrides =
     (if unihex_mode self = ModeNone then Inr None
      else case get_resource_path self fs hex_file [] [] False of
             Inl e \<Rightarrow> Inl e
           | Inr path \<Rightarrow>
               (case fs path of
                  None \<Rightarrow> Inl (FileNotFoundError path)
                | Some (ZipFile entries) \<Rightarrow>
                    (case find_hex entries of
                       None \<Rightarrow> Inl UnboundLocalError
                     | Some hex \<Rightarrow>
                         (case unihex_lines self (map make_override size_overrides) hex [] of
                            Inl e \<Rightarrow> Inl e
                          | Inr advances \<Rightarrow>
                              if length advances = 0 then Inr None
                              else Inr (Some (space_provider advances))))
                | Some _ \<Rightarrow> Inl (BadFileError path)))"

subsection \<open>\<open>convert_provider\<close> and \<open>convert_font\<close>\<close>

text \<open>
  \<open>convert_font\<close> and \<open>convert_reference_provider\<close> call each other. The functions
  below take the nested \<open>convert_font\<close> as their first argument \<open>conv\<close>;
  \<open>convert_font\<close> itself is defined last, by recursion on the depth of calls that the
  interpreter still allows, and raises \<open>RecursionError\<close> when none is left.
\<close>

type_synonym converted = "error + (string \<times> world)"

definition convert_reference_provider ::
  "(world \<Rightarrow> string \<Rightarrow> converted) \<Rightarrow> world \<Rightarrow> string \<Rightarrow> error + (provider \<times> world)" where
  "convert_reference_provider conv w font_id =
     (case conv w font_id of
        Inl e \<Rightarrow> Inl e
      | Inr (new_font_id, w') \<Rightarrow> Inr (\<lparr>kind = Reference new_font_id, pfilter = None\<rparr>, w'))"

definition convert_provider ::
  "(world \<Rightarrow> string \<Rightarrow> converted) \<Rightarrow> converter \<Rightarrow> world \<Rightarrow> provider
     \<Rightarrow> error + (provider option \<times> world)" where
  "convert_provider conv self w provider =
     (case kind provider of
        Reference font_id \<Rightarrow>
          (case convert_reference_provider conv w font_id of
             Inl e \<Rightarrow> Inl e
           | Inr (new_provider, w') \<Rightarrow> Inr (Some new_provider, w'))
      | Space advances \<Rightarrow> Inr (Some (convert_space_provider self advances), w)
      | Ttf file size_opt oversample_opt skip \<Rightarrow>
          (case convert_ttf_provider self (files w) file size_opt oversample_opt skip of
             Inl e \<Rightarrow> Inl e
           | Inr new_provider \<Rightarrow> Inr (Some new_provider, w))
      | Bitmap file chars height_opt \<Rightarrow>
          (case convert_bitmap_provider self (files w) file chars height_opt of
             Inl e \<Rightarrow> Inl e
           | Inr new_provider \<Rightarrow> Inr (Some new_provider, w))
      | Unihex hex_file size_overrides \<Rightarrow>
          (case convert_unihex_provider self (files w) hex_file size_overrides of
             Inl e \<Rightarrow> Inl e
           | Inr result \<Rightarrow> Inr (result, w))
      | OtherKind provider_type \<Rightarrow> Inl (UnknownProviderType provider_type))"

definition is_space :: "provider \<Rightarrow> bool" where
  "is_space provider = (case kind provider of Space advances \<Rightarrow> True | _ \<Rightarrow> False)"

text \<open>The loop over \<open>old_providers\<close>, with the two buckets as its state.\<close>

fun convert_loop ::
  "(world \<Rightarrow> string \<Rightarrow> converted) \<Rightarrow> converter \<Rightarrow> world \<Rightarrow> provider list
     \<Rightarrow> provider list \<times> provider list
     \<Rightarrow> error + ((provider list \<times> provider list) \<times> world)" where
  "convert_loop conv self w [] (space_providers, other_providers) =
     Inr ((space_providers, other_providers), w)"
| "convert_loop conv self w (old_provider # rest) (space_providers, other_providers) =
     (case convert_provider conv self w old_provider of
        Inl e \<Rightarrow> Inl e
      | Inr (None, w') \<Rightarrow> convert_loop conv self w' rest (space_providers, other_providers)
      | Inr (Some converted, w') \<Rightarrow>
          let new_provider = assure_integers converted in
          (case pfilter old_provider of
             Some f \<Rightarrow>
               convert_loop conv self w' rest
                 (space_providers, other_providers @ [new_provider\<lparr>pfilter := Some f\<rparr>])
           | None \<Rightarrow>
               if is_space new_provider
               then convert_loop conv self w' rest
                      (space_providers @ [new_provider], other_providers)
               else convert_loop conv self w' rest
                      (space_providers, other_providers @ [new_provider])))"

text \<open>
  \<open>space_providers[-1]["advances"].update(to_merge["advances"])\<close>; a provider without
  advances would raise \<open>KeyError\<close>.
\<close>

definition merge_into :: "provider \<Rightarrow> provider \<Rightarrow> error + provider" where
  "merge_into target to_merge =
     (case kind target of
        Space a \<Rightarrow>
          (case kind to_merge of
             Space b \<Rightarrow> Inr (target\<lparr>kind := Space (dict_update a b)\<rparr>)
           | _ \<Rightarrow> Inl KeyError)
      | _ \<Rightarrow> Inl KeyError)"

function merge_loop :: "provider list \<Rightarrow> error + provider list" where
  "merge_loop space_providers =
     (if length space_providers > 1
      then
        let to_merge = last space_providers;
            popped = butlast space_providers
        in case merge_into (last popped) to_merge of
             Inl e \<Rightarrow> Inl e
           | Inr merged \<Rightarrow> merge_loop (butlast popped @ [merged])
      else Inr space_providers)"
  by pat_completeness auto
termination
  by (relation "measure length") auto

declare merge_loop.simps [simp del]

definition convert_font_body ::
  "(world \<Rightarrow> string \<Rightarrow> converted) \<Rightarrow> converter \<Rightarrow> world \<Rightarrow> string \<Rightarrow> converted" where
  "convert_font_body conv self w font_id =
     (let new_font_id = font_id @ suffix self in
      case get_font_path self (files w) font_id False of
        Inl e \<Rightarrow> Inl e
      | Inr old_path \<Rightarrow>
          (case get_font_path self (files w) new_font_id True of
             Inl e \<Rightarrow> Inl e
           | Inr new_path \<Rightarrow>
               (case files w old_path of
                  None \<Rightarrow> Inl (FileNotFoundError old_path)
                | Some (FontJson old_providers) \<Rightarrow>
                    (case convert_loop conv self w old_providers ([], []) of
                       Inl e \<Rightarrow> Inl e
                     | Inr ((space_providers, other_providers), w1) \<Rightarrow>
                         (case merge_loop space_providers of
                            Inl e \<Rightarrow> Inl e
                          | Inr merged \<Rightarrow>
                              Inr (new_font_id,
                                   \<lparr>files = (files w1)
                                      (new_path \<mapsto> FontJson (other_providers @ merged)),
                                    written = written w1 @ [new_path]\<rparr>)))
                | Some _ \<Rightarrow> Inl (BadFileError old_path))))"

primrec convert_font :: "nat \<Rightarrow> converter \<Rightarrow> world \<Rightarrow> string \<Rightarrow> converted" where
  "convert_font 0 self w font_id = Inl RecursionError"
| "convert_font (Suc depth) self w font_id =
     convert_font_body (convert_font depth self) self w font_id"

subsection \<open>Notions of the specification\<close>

text \<open>
  The advance map of a space provider; a value that is mathematically whole; an advance
  map in which every whole value is stored as an integer.
\<close>

definition advances_of :: "provider \<Rightarrow> advances" where
  "advances_of provider = (case kind provider of Space a \<Rightarrow> a | _ \<Rightarrow> [])"

fun stored_as_int :: "pynum \<Rightarrow> bool" where
  "stored_as_int (PInt i) = True"
| "stored_as_int (PFloat r) = False"

definition whole :: "pynum \<Rightarrow> bool" where
  "whole v = (num_val v \<in> \<int>)"

definition normalized :: "advances \<Rightarrow> bool" where
  "normalized adv = list_all (\<lambda>(k, v). whole v \<longrightarrow> stored_as_int v) adv"

definition values_of :: "advances \<Rightarrow> (uchar \<times> real) list" where
  "values_of adv = map (\<lambda>(k, v). (k, num_val v)) adv"

text \<open>
  Unihex entries as the specification words them. A code point falls inside an override
  range; the width of an override; the codes a mode includes (\<open>claimed_included\<close> with the
  clause "or the hex entry resolves to a defined glyph" for \<open>all_named\<close>, \<open>included\<close>
  without it); the width of an entry (the first range holding the code, else the extent
  of its bitmap); and what an entry contributes to the advance map.
\<close>

definition in_override :: "size_override \<Rightarrow> nat \<Rightarrow> bool" where
  "in_override ov c = (ov_from ov \<le> c \<and> c \<le> ov_to ov)"

definition override_width :: "size_override \<Rightarrow> int" where
  "override_width ov =
     (if ov_from ov = 0 \<and> ov_to ov = 0 then 0 else ov_right ov - ov_left ov + 1)"

definition defined_glyph :: "string \<Rightarrow> bool" where
  "defined_glyph img = (case read_hex_bitmap img of Inr w \<Rightarrow> 0 < w | Inl e \<Rightarrow> False)"

definition claimed_included :: "unihex_mode \<Rightarrow> size_override list \<Rightarrow> nat \<Rightarrow> string \<Rightarrow> bool" where
  "claimed_included mode ovs c img =
     (case mode of
        ModeNone \<Rightarrow> False
      | ModeAscii \<Rightarrow> c \<le> 256
      | ModeAllNamed \<Rightarrow> c \<le> 256 \<or> list_ex (\<lambda>ov. in_override ov c) ovs \<or> defined_glyph img
      | ModeAll \<Rightarrow> True)"

definition included :: "unihex_mode \<Rightarrow> size_override list \<Rightarrow> nat \<Rightarrow> bool" where
  "included mode ovs c =
     (case mode of
        ModeNone \<Rightarrow> False
      | ModeAscii \<Rightarrow> c \<le> 256
      | ModeAllNamed \<Rightarrow> c \<le> 256 \<or> list_ex (\<lambda>ov. in_override ov c) ovs
      | ModeAll \<Rightarrow> True)"

definition entry_width :: "size_override list \<Rightarrow> nat \<Rightarrow> string \<Rightarrow> error + int" where
  "entry_width ovs c img =
     (case filter (\<lambda>ov. in_override ov c) ovs of
        ov # rest \<Rightarrow> Inr (override_width ov)
      | [] \<Rightarrow> read_hex_bitmap img)"

definition contribution ::
  "converter \<Rightarrow> size_override list \<Rightarrow> nat \<times> string \<Rightarrow> (uchar \<times> pynum) option" where
  "contribution self ovs entry =
     (case entry of (c, img) \<Rightarrow>
        if included (unihex_mode self) ovs c
        then (case entry_width ovs c img of
                Inr w \<Rightarrow>
                  Some (c, PFloat (real_of_int (trunc (0.5 * real_of_int w) + 1)
                                   * width_factor self))
              | Inl e \<Rightarrow> None)
        else None)"



text \<open>
  The pairs of a character and its advance that a conversion computes, in the order in
  which it visits its sources: the cells of a glyph grid in row-major order (skipping
  NUL and space), and the included lines of a hex file in file order
  (\<open>List.map_filter (contribution self ovs)\<close>).
\<close>

definition cell_contribution ::
  "converter \<Rightarrow> rgba_image \<Rightarrow> int \<Rightarrow> nat \<Rightarrow> nat \<Rightarrow> nat \<Rightarrow> nat \<times> uchar
     \<Rightarrow> (uchar \<times> pynum) option" where
  "cell_contribution self img height char_width char_height y cell =
     (case cell of (x, char) \<Rightarrow>
        if char = 0 \<or> char = 32 then None
        else (case cell_advance self img height char_width char_height x y of
                Inr a \<Rightarrow> Some (char, a)
              | Inl e \<Rightarrow> None))"

definition line_contributions ::
  "converter \<Rightarrow> rgba_image \<Rightarrow> int \<Rightarrow> nat \<Rightarrow> nat \<times> uchar list \<Rightarrow> (uchar \<times> pynum) list" where
  "line_contributions self img height num_rows yline =
     (case yline of (y, line) \<Rightarrow>
        List.map_filter
          (cell_contribution self img height (img_width img div length line)
             (img_height img div num_rows) y)
          (enumerate 0 line))"

definition bitmap_contributions ::
  "converter \<Rightarrow> rgba_image \<Rightarrow> int \<Rightarrow> uchar list list \<Rightarrow> (uchar \<times> pynum) list" where
  "bitmap_contributions self img height chars =
     concat (map (line_contributions self img height (length chars)) (enumerate 0 chars))"

text \<open>
  The converted providers of a definition in their original order, as the specification
  words step 2: each provider is converted, a null result is dropped, the result is
  normalised and carries the filter of its source. A converted provider is mergeable
  when it has no filter and is a space provider.
\<close>

fun convert_all ::
  "(world \<Rightarrow> string \<Rightarrow> converted) \<Rightarrow> converter \<Rightarrow> world \<Rightarrow> provider list
     \<Rightarrow> error + (provider list \<times> world)" where
  "convert_all conv self w [] = Inr ([], w)"
| "convert_all conv self w (old_provider # rest) =
     (case convert_provider conv self w old_provider of
        Inl e \<Rightarrow> Inl e
      | Inr (result, w') \<Rightarrow>
          (case convert_all conv self w' rest of
             Inl e \<Rightarrow> Inl e
           | Inr (cs, w'') \<Rightarrow>
               Inr ((case result of
                       None \<Rightarrow> []
                     | Some converted \<Rightarrow>
                         (case pfilter old_provider of
                            None \<Rightarrow> [assure_integers converted]
                          | Some f \<Rightarrow> [(assure_integers converted)\<lparr>pfilter := Some f\<rparr>]))
                    @ cs, w'')))"

definition mergeable :: "provider \<Rightarrow> bool" where
  "mergeable provider = (pfilter provider = None \<and> is_space provider)"

text \<open>
  The merge of the space bucket: each advance map is folded into the one before it,
  from the last to the first. The emitted provider sequence is the other providers
  followed by the single merged space provider, if there is any mergeable provider.
\<close>

fun merge_advances :: "advances list \<Rightarrow> advances" where
  "merge_advances [] = []"
| "merge_advances [a] = a"
| "merge_advances (a # b # rest) = dict_update a (merge_advances (b # rest))"

definition emitted :: "provider list \<Rightarrow> provider list" where
  "emitted cs =
     filter (\<lambda>p. \<not> mergeable p) cs
     @ (if filter mergeable cs = [] then []
        else [space_provider (merge_advances (map advances_of (filter mergeable cs)))])"

subsection \<open>Example data\<close>

text \<open>
  A converter with suffix \<open>_sp\<close> and factor \<open>1\<close> writing to the pack \<open>p\<close>; two
  hex bitmaps whose only non-zero row is row 8, with value \<open>0x18\<close> and \<open>0x3C\<close>; and a
  16 by 8 image with two cells of width 8, inked in pixel columns 0 to 4 and 8 to 9 of
  pixel row 3.
\<close>

abbreviation example_converter :: "unihex_mode \<Rightarrow> converter" where
  "example_converter mode \<equiv>
     \<lparr>suffix = ''_sp'', width_factor = 1, target_pack_folder = ''p'',
      fallback_pack_folder = None, unihex_mode = mode\<rparr>"

abbreviation glyph_18 :: string where
  "glyph_18 \<equiv> ''00000000000000001800000000000000''"

abbreviation glyph_3C :: string where
  "glyph_3C \<equiv> ''00000000000000003C00000000000000''"

abbreviation example_image :: rgba_image where
  "example_image \<equiv>
     \<lparr>img_width = 16, img_height = 8,
      alpha = (\<lambda>x y. if (x < 5 \<or> (8 \<le> x \<and> x < 10)) \<and> y = 3 then 255 else 0)\<rparr>"

text \<open>
  A pack whose font \<open>abc\<close> has the space providers \<open>{a: 1}\<close>, \<open>{a: 2, b: 3}\<close>, a
  filtered \<open>{d: 2.5}\<close> and \<open>{c: 4}\<close>; and a pack whose font \<open>base\<close> refers to the font
  \<open>other\<close>.
\<close>

abbreviation example_fonts :: world where
  "example_fonts \<equiv>
     \<lparr>files = [''p/assets/minecraft/font/abc.json'' \<mapsto> FontJson
          [\<lparr>kind = Space [(97, PInt 1)], pfilter = None\<rparr>,
           \<lparr>kind = Space [(97, PInt 2), (98, PInt 3)], pfilter = None\<rparr>,
           \<lparr>kind = Space [(100, PFloat (5 / 2))], pfilter = Some ''f''\<rparr>,
           \<lparr>kind = Space [(99, PInt 4)], pfilter = None\<rparr>]],
      written = []\<rparr>"

abbreviation example_references :: world where
  "example_references \<equiv>
     \<lparr>files = [''p/assets/minecraft/font/base.json'' \<mapsto> FontJson
                 [\<lparr>kind = Reference ''other'', pfilter = None\<rparr>],
               ''p/assets/minecraft/font/other.json'' \<mapsto> FontJson
                 [\<lparr>kind = Space [(97, PInt 1)], pfilter = None\<rparr>]],
      written = []\<rparr>"



section \<open>Properties\<close>

subsection \<open>The hex-bitmap extent\<close>


lemma nat_bit_length_le: "nat_bit_length n \<le> k \<longleftrightarrow> n < 2 ^ k"
proof (induction n arbitrary: k rule: nat_bit_length.induct)
  case (1 n)
  show ?case
  proof (cases "n = 0")
    case True
    then show ?thesis by (simp add: nat_bit_length.simps)
  next
    case False
    show ?thesis
    proof (cases k)
      case 0
      with False show ?thesis by (simp add: nat_bit_length.simps)
    next
      case (Suc j)
      have "nat_bit_length (n div 2) \<le> j \<longleftrightarrow> n div 2 < 2 ^ j"
        using 1 False by blast
      moreover have "n div 2 < 2 ^ j \<longleftrightarrow> n < 2 ^ Suc j"
        by (simp add: less_mult_imp_div_less div_less_iff_less_mult mult.commute)
      ultimately show ?thesis using False Suc
        by (simp add: nat_bit_length.simps [of n])
    qed
  qed
qed

lemma nat_bit_length_mono: "m \<le> n \<Longrightarrow> nat_bit_length m \<le> nat_bit_length n"
  using nat_bit_length_le [of n "nat_bit_length n"] nat_bit_length_le [of m "nat_bit_length n"]
  by simp

lemma hex_digit_less: "hex_digit c = Some d \<Longrightarrow> d < 16"
  by (auto simp: hex_digit_def Let_def split: if_splits)

lemma hex_acc_bound:
  "\<forall>c\<in>set s. hex_digit c \<noteq> None \<Longrightarrow> \<exists>n. hex_acc acc s = Some n \<and> n < (acc + 1) * 16 ^ length s"
proof (induction s arbitrary: acc)
  case Nil
  then show ?case by simp
next
  case (Cons c cs)
  then obtain d where d: "hex_digit c = Some d" by auto
  then have dl: "d < 16" by (rule hex_digit_less)
  from Cons obtain n where n: "hex_acc (16 * acc + d) cs = Some n"
    "n < (16 * acc + d + 1) * 16 ^ length cs" by fastforce
  have "(16 * acc + d + 1) * 16 ^ length cs \<le> (16 * (acc + 1)) * 16 ^ length cs"
    using dl by (intro mult_le_mono1) simp
  also have "\<dots> = (acc + 1) * 16 ^ length (c # cs)" by (simp add: algebra_simps)
  finally have "n < (acc + 1) * 16 ^ length (c # cs)" using n(2) by linarith
  with n(1) d show ?case by simp
qed

lemma int16_hex:
  assumes "\<forall>c\<in>set s. hex_digit c \<noteq> None" "s \<noteq> []"
  shows "int16 s = Inr (hex_value s)" "0 \<le> hex_value s"
    "bit_length (hex_value s) \<le> 4 * length s"
proof -
  from hex_acc_bound [OF assms(1), of 0] obtain n where
    n: "hex_acc 0 s = Some n" "n < 16 ^ length s" by auto
  show "int16 s = Inr (hex_value s)" using n assms(2) by (simp add: int16_def hex_value_def)
  show "0 \<le> hex_value s" by (simp add: hex_value_def)
  have "(16::nat) ^ length s = 2 ^ (4 * length s)"
    by (simp add: power_mult)
  with n have "n < 2 ^ (4 * length s)" by simp
  then show "bit_length (hex_value s) \<le> 4 * length s"
    using n by (simp add: bit_length_def hex_value_def nat_bit_length_le)
qed

lemma low_bit_le: "0 < row \<Longrightarrow> bit_length (row AND (- row)) \<le> bit_length row"
proof -
  assume r: "0 < row"
  then have "row AND (- row) \<le> row" "0 \<le> row AND (- row)"
    by (simp_all add: AND_upper1)
  then have "nat \<bar>row AND (- row)\<bar> \<le> nat \<bar>row\<bar>" by linarith
  then show ?thesis unfolding bit_length_def
    by (rule nat_bit_length_mono)
qed

lemma bit_length_pos: "row \<noteq> 0 \<Longrightarrow> 0 < bit_length row"
  by (simp add: bit_length_def nat_bit_length.simps [of "nat \<bar>row\<bar>"])


lemma slice_row:
  assumes "\<forall>c\<in>set img. hex_digit c \<noteq> None" "0 < row_len" "(i + 1) * row_len \<le> length img"
  shows "int16 (py_slice img (i * row_len) ((i + 1) * row_len)) = Inr (row_at img row_len i)"
    "0 \<le> row_at img row_len i"
    "int (bit_length (row_at img row_len i)) \<le> int (row_len * 4)"
proof -
  let ?s = "py_slice img (i * row_len) ((i + 1) * row_len)"
  have len: "length ?s = row_len" using assms(3) by (simp add: py_slice_def)
  then have ne: "?s \<noteq> []" using assms(2) by auto
  have hx: "\<forall>c\<in>set ?s. hex_digit c \<noteq> None"
    using assms(1) by (auto simp: py_slice_def dest!: in_set_takeD in_set_dropD)
  show "int16 ?s = Inr (row_at img row_len i)"
    using int16_hex(1) [OF hx ne] by (simp add: row_at_def)
  show "0 \<le> row_at img row_len i"
    using int16_hex(2) [OF hx ne] by (simp add: row_at_def)
  show "int (bit_length (row_at img row_len i)) \<le> int (row_len * 4)"
    using int16_hex(3) [OF hx ne] len by (simp add: row_at_def mult.commute)
qed

lemma read_hex_rows_eq:
  assumes "\<forall>c\<in>set img. hex_digit c \<noteq> None" "0 < row_len"
    "\<forall>i\<in>set is. (i + 1) * row_len \<le> length img"
  shows "read_hex_rows img row_len is (mn, mx) =
    Inr (Min (insert mn (set (map (\<lambda>r. int (bit_length (r AND (- r))))
                 (filter (\<lambda>r. r \<noteq> 0) (map (row_at img row_len) is))))),
         Max (insert mx (set (map (\<lambda>r. int (bit_length r))
                 (filter (\<lambda>r. r \<noteq> 0) (map (row_at img row_len) is))))))"
  using assms(3)
proof (induction "is" arbitrary: mn mx)
  case Nil
  then show ?case by simp
next
  case (Cons i rest)
  have row: "int16 (py_slice img (i * row_len) ((i + 1) * row_len)) = Inr (row_at img row_len i)"
    using slice_row(1) [OF assms(1,2)] Cons.prems by simp
  have IH: "\<And>mn mx. read_hex_rows img row_len rest (mn, mx) =
    Inr (Min (insert mn (set (map (\<lambda>r. int (bit_length (r AND (- r))))
                 (filter (\<lambda>r. r \<noteq> 0) (map (row_at img row_len) rest))))),
         Max (insert mx (set (map (\<lambda>r. int (bit_length r))
                 (filter (\<lambda>r. r \<noteq> 0) (map (row_at img row_len) rest))))))"
    using Cons.IH Cons.prems by simp
  show ?case
  proof (cases "row_at img row_len i = 0")
    case True
    then show ?thesis using row IH by simp
  next
    case False
    let ?L = "set (map (\<lambda>r. int (bit_length (r AND (- r))))
                 (filter (\<lambda>r. r \<noteq> 0) (map (row_at img row_len) rest)))"
    let ?H = "set (map (\<lambda>r. int (bit_length r))
                 (filter (\<lambda>r. r \<noteq> 0) (map (row_at img row_len) rest)))"
    let ?lo = "int (bit_length (row_at img row_len i AND - row_at img row_len i))"
    let ?hi = "int (bit_length (row_at img row_len i))"
    have mn: "Min (insert (min ?lo mn) ?L) = Min (insert mn (insert ?lo ?L))"
      by (cases "?L = {}") (simp_all add: min.commute min.left_commute min.assoc)
    have mx: "Max (insert (max ?hi mx) ?H) = Max (insert mx (insert ?hi ?H))"
      by (cases "?H = {}") (simp_all add: max.commute max.left_commute max.assoc)
    show ?thesis using False row IH mn mx by (simp add: Let_def)
  qed
qed

lemma Min_insert_absorb:
  fixes a :: int
  assumes "finite A" "A \<noteq> {}" "\<forall>x\<in>A. x \<le> a"
  shows "Min (insert a A) = Min A"
proof -
  have "Min A \<le> a" using assms by (meson Min_in)
  moreover have "Min (insert a A) = min a (Min A)" using assms(1,2) by (rule Min_insert)
  ultimately show ?thesis by (simp only: min_absorb2)
qed

lemma Max_insert_absorb:
  fixes a :: int
  assumes "finite A" "A \<noteq> {}" "\<forall>x\<in>A. a \<le> x"
  shows "Max (insert a A) = Max A"
proof -
  have "a \<le> Max A" using assms by (meson Max_in)
  moreover have "Max (insert a A) = max a (Max A)" using assms(1,2) by (rule Max_insert)
  ultimately show ?thesis by (simp only: max_absorb2)
qed

text \<open>
  C3. For a string of hexadecimal digits that holds a 16-row bitmap (at least 16 digits,
  so that a row is at least one digit wide), \<open>read_hex_bitmap\<close> returns the largest
  \<open>bit_length(row)\<close> minus the smallest \<open>bit_length(row & -row)\<close> plus one, both
  taken over the non-zero rows, and \<open>0\<close> when all sixteen rows are zero.
\<close>

theorem read_hex_bitmap_extent:
  assumes "\<forall>c\<in>set img. hex_digit c \<noteq> None" and "16 \<le> length img"
  shows "read_hex_bitmap img = Inr (extent_of_rows (bitmap_rows img))"
proof -
  define rl where "rl = length img div 16"
  have rl: "0 < rl" using assms(2) by (simp add: rl_def div_greater_zero_iff)
  have idx: "\<forall>i\<in>set [0..<16]. (i + 1) * rl \<le> length img"
  proof
    fix i assume "i \<in> set [0..<16]"
    then have "i + 1 \<le> 16" by simp
    then have "(i + 1) * rl \<le> 16 * rl" by (rule mult_le_mono1)
    also have "\<dots> \<le> length img" by (simp add: rl_def)
    finally show "(i + 1) * rl \<le> length img" .
  qed
  define nz where "nz = filter (\<lambda>r. r \<noteq> 0) (map (row_at img rl) [0..<16])"
  define L where "L = set (map (\<lambda>r. int (bit_length (r AND (- r)))) nz)"
  define H where "H = set (map (\<lambda>r. int (bit_length r)) nz)"
  have run: "read_hex_rows img rl [0..<16] (int (rl * 4), - 1) =
      Inr (Min (insert (int (rl * 4)) L), Max (insert (- 1) H))"
    unfolding L_def H_def nz_def by (rule read_hex_rows_eq [OF assms(1) rl idx])
  have rows: "filter (\<lambda>r. r \<noteq> 0) (bitmap_rows img) = nz"
    by (simp add: bitmap_rows_def row_at_def [abs_def] nz_def rl_def del: upt.simps)
  have ext: "extent_of_rows (bitmap_rows img) = (if nz = [] then 0 else Max H - Min L + 1)"
    unfolding extent_of_rows_def Let_def rows H_def L_def ..
  have nzprop: "0 < r \<and> int (bit_length r) \<le> int (rl * 4)" if "r \<in> set nz" for r
  proof -
    from that obtain i where i: "i \<in> set [0..<16]" "r = row_at img rl i" "r \<noteq> 0"
      unfolding nz_def by auto
    from idx i(1) have "(i + 1) * rl \<le> length img" by blast
    from slice_row(2,3) [OF assms(1) rl this] i(2,3)
    show ?thesis by simp
  qed
  show ?thesis
  proof (cases "nz = []")
    case True
    then have "L = {}" "H = {}" by (simp_all add: L_def H_def)
    then show ?thesis using run ext True
      by (simp add: read_hex_bitmap_def Let_def rl_def [symmetric] del: upt.simps)
  next
    case False
    then have Hne: "H \<noteq> {}" and Lne: "L \<noteq> {}" by (simp_all add: L_def H_def)
    have fin: "finite H" "finite L" by (simp_all add: L_def H_def)
    have Hpos: "\<forall>h\<in>H. 0 < h"
    proof
      fix h assume "h \<in> H"
      then obtain r where r: "r \<in> set nz" "h = int (bit_length r)"
        by (auto simp: H_def)
      from nzprop [OF r(1)] have "r \<noteq> 0" by simp
      then show "0 < h" using bit_length_pos [of r] r(2) by simp
    qed
    have Lle: "\<forall>l\<in>L. l \<le> int (rl * 4)"
    proof
      fix l assume "l \<in> L"
      then obtain r where r: "r \<in> set nz" "l = int (bit_length (r AND (- r)))"
        by (auto simp: L_def)
      with nzprop [OF r(1)] low_bit_le [of r] show "l \<le> int (rl * 4)" by simp
    qed
    have mx: "Max (insert (- 1) H) = Max H"
      using fin(1) Hne Hpos by (intro Max_insert_absorb) auto
    have mn: "Min (insert (int (rl * 4)) L) = Min L"
      using fin(2) Lne Lle by (intro Min_insert_absorb) auto
    have "Max H \<in> H" using fin(1) Hne by (rule Max_in)
    with Hpos have "Max H \<noteq> - 1" by fastforce
    then show ?thesis using run ext False mx mn
      by (simp add: read_hex_bitmap_def Let_def rl_def [symmetric] del: upt.simps)
  qed
qed

text \<open>
  The bitmap whose only non-zero row is row 8 with value \<open>0x18\<close> (rows of two
  digits) has extent \<open>2\<close>.
\<close>

theorem read_hex_bitmap_extent_witness:
  "list_all (\<lambda>c. hex_digit c \<noteq> None) ''00000000000000001800000000000000''
   \<and> 16 \<le> length ''00000000000000001800000000000000''
   \<and> read_hex_bitmap ''00000000000000001800000000000000'' = Inr 2"
proof -
  have h0: "list_all (\<lambda>c. hex_digit c \<noteq> None) ''00000000000000001800000000000000''"
    by code_simp
  then have h1: "\<forall>c\<in>set ''00000000000000001800000000000000''. hex_digit c \<noteq> None"
    by (simp only: list_all_iff)
  have h2: "16 \<le> length ''00000000000000001800000000000000''" by simp
  have v: "extent_of_rows (bitmap_rows ''00000000000000001800000000000000'') = 2" by code_simp
  show ?thesis using read_hex_bitmap_extent [OF h1 h2] h0 h2 v by simp
qed

subsection \<open>Dictionaries\<close>

lemma dict_update_Nil [simp]: "dict_update d [] = d"
  by (simp add: dict_update_def)

lemma dict_update_Cons [simp]:
  "dict_update d ((k, v) # e) = dict_update (AList.update k v d) e"
  by (simp add: dict_update_def)

lemma dict_update_append: "dict_update d (e @ e') = dict_update (dict_update d e) e'"
  by (simp add: dict_update_def)

lemma distinct_dict_update:
  "distinct (map fst d) \<Longrightarrow> distinct (map fst (dict_update d e))"
  by (induction e arbitrary: d) (auto simp: distinct_update)

lemma map_of_dict_update_rev: "map_of (dict_update d e) = map_of d ++ map_of (rev e)"
  by (induction e arbitrary: d) (auto simp: update_conv')

lemma map_of_rev_distinct: "distinct (map fst e) \<Longrightarrow> map_of (rev e) = map_of e"
proof (induction e)
  case Nil
  then show ?case by simp
next
  case (Cons kv e)
  obtain k v where kv: "kv = (k, v)" by (cases kv)
  from Cons.prems kv have "k \<notin> fst ` set e" by simp
  then have "map_of e k = None" by (simp add: map_of_eq_None_iff)
  then have "[k \<mapsto> v] ++ map_of e = (map_of e)(k \<mapsto> v)"
    by (auto simp: map_add_def fun_eq_iff split: option.splits)
  then show ?case using Cons kv by simp
qed

lemma map_of_dict_update:
  "distinct (map fst e) \<Longrightarrow> map_of (dict_update d e) = map_of d ++ map_of e"
  by (simp add: map_of_dict_update_rev map_of_rev_distinct)

lemma set_update_subset: "set (AList.update k v al) \<subseteq> insert (k, v) (set al)"
  by (induction al) auto

lemma set_dict_update_subset: "set (dict_update d e) \<subseteq> set d \<union> set e"
proof (induction e arbitrary: d)
  case Nil
  then show ?case by simp
next
  case (Cons kv e)
  obtain k v where kv: "kv = (k, v)" by (cases kv)
  have "set (dict_update (AList.update k v d) e) \<subseteq> set (AList.update k v d) \<union> set e"
    by (rule Cons.IH)
  then show ?case using set_update_subset [of k v d] kv by auto
qed

lemma keys_dict_update: "fst ` set (dict_update d e) = fst ` set d \<union> fst ` set e"
proof (induction e arbitrary: d)
  case Nil
  then show ?case by simp
next
  case (Cons kv e)
  obtain k v where kv: "kv = (k, v)" by (cases kv)
  have "fst ` set (dict_update (AList.update k v d) e) = ({k} \<union> fst ` set d) \<union> fst ` set e"
    by (simp only: Cons.IH dom_update)
  then show ?case using kv by auto
qed

text \<open>In a dictionary, the entries at a key are the one the lookup finds.\<close>

lemma filter_key_distinct:
  "distinct (map fst al) \<Longrightarrow>
   filter (\<lambda>kv. fst kv = c) al = (case map_of al c of None \<Rightarrow> [] | Some v \<Rightarrow> [(c, v)])"
proof (induction al)
  case Nil
  then show ?case by simp
next
  case (Cons kv al)
  obtain k v where kv: "kv = (k, v)" by (cases kv)
  show ?case
  proof (cases "k = c")
    case True
    with Cons.prems kv have "c \<notin> fst ` set al" by simp
    then have "filter (\<lambda>kv. fst kv = c) al = []"
      by (auto simp: filter_empty_conv)
    then show ?thesis using True kv by simp
  next
    case False
    then show ?thesis using Cons kv by simp
  qed
qed

subsection \<open>Normalisation\<close>

lemma float_whole: "(real_of_int \<lfloor>r\<rfloor> = r) = (r \<in> \<int>)"
proof
  assume a: "real_of_int \<lfloor>r\<rfloor> = r"
  have "real_of_int \<lfloor>r\<rfloor> \<in> \<int>" by (rule Ints_of_int)
  then show "r \<in> \<int>" by (simp only: a)
next
  assume "r \<in> \<int>"
  then obtain z where "r = real_of_int z" by (rule Ints_cases)
  then show "real_of_int \<lfloor>r\<rfloor> = r" by simp
qed

lemma is_integer_whole: "is_integer v = whole v"
proof (cases v)
  case (PInt i)
  then show ?thesis by (simp add: whole_def)
next
  case (PFloat r)
  then show ?thesis by (simp only: is_integer.simps whole_def num_val.simps float_whole)
qed

lemma to_int_val: "whole v \<Longrightarrow> num_val (to_int v) = num_val v"
  by (cases v) (auto simp: whole_def trunc_def elim!: Ints_cases)

lemma assure_value_val: "num_val (assure_value v) = num_val v"
  by (simp add: assure_value_def is_integer_whole to_int_val)

lemma assure_value_stored: "whole (assure_value v) \<Longrightarrow> stored_as_int (assure_value v)"
proof (cases "is_integer v")
  case True
  then show ?thesis by (cases v) (simp_all add: assure_value_def)
next
  case False
  assume "whole (assure_value v)"
  with False show ?thesis by (simp add: assure_value_def is_integer_whole)
qed



lemma assure_integers_other: "\<not> is_space p \<Longrightarrow> assure_integers p = p"
  by (cases "kind p") (simp_all add: assure_integers_def is_space_def)

lemma normalized_assure: "normalized (map (\<lambda>(k, v). (k, assure_value v)) a)"
  by (induction a) (auto simp: normalized_def assure_value_stored)


lemma normalized_dict_update:
  "normalized a \<Longrightarrow> normalized b \<Longrightarrow> normalized (dict_update a b)"
  using set_dict_update_subset [of a b]
  by (auto simp: normalized_def list_all_iff)



subsection \<open>Unihex entries\<close>

lemma find_override_make:
  "find_override (map make_override ovs) c =
     (case filter (\<lambda>ov. in_override ov c) ovs of
        ov # rest \<Rightarrow> Some (override_width ov)
      | [] \<Rightarrow> None)"
  by (induction ovs)
     (auto simp: make_override_def in_override_def override_width_def Let_def)

lemma in_override_ex:
  "list_ex (\<lambda>ov. in_override ov c) ovs \<longleftrightarrow> filter (\<lambda>ov. in_override ov c) ovs \<noteq> []"
  by (induction ovs) auto

lemma unihex_width_included:
  assumes "mode \<noteq> ModeNone"
  shows "unihex_width mode (map make_override ovs) c img =
     (if included mode ovs c
      then (case entry_width ovs c img of Inl e \<Rightarrow> Inl e | Inr w \<Rightarrow> Inr (Some w))
      else Inr None)"
proof (cases "filter (\<lambda>ov. in_override ov c) ovs")
  case Nil
  then have "\<not> list_ex (\<lambda>ov. in_override ov c) ovs" by (simp add: in_override_ex)
  then show ?thesis using assms Nil
    by (cases mode)
       (auto simp: unihex_width_def find_override_make included_def entry_width_def
             split: sum.splits)
next
  case (Cons ov rest)
  then have "list_ex (\<lambda>ov. in_override ov c) ovs" by (simp add: in_override_ex)
  then show ?thesis using assms Cons
    by (cases mode)
       (auto simp: unihex_width_def find_override_make included_def entry_width_def)
qed

lemma unihex_lines_fold:
  assumes "unihex_mode self \<noteq> ModeNone"
    and "unihex_lines self (map make_override ovs) hex adv0 = Inr adv"
  shows "adv = dict_update adv0 (List.map_filter (contribution self ovs) hex)"
  using assms(2)
proof (induction hex arbitrary: adv0)
  case Nil
  then show ?case by (simp add: List.map_filter_simps)
next
  case (Cons entry hex)
  obtain c img where entry: "entry = (c, img)" by (cases entry)
  note w = unihex_width_included [OF assms(1), of ovs c img]
  show ?case
  proof (cases "included (unihex_mode self) ovs c")
    case False
    then show ?thesis using Cons entry w
      by (simp add: List.map_filter_simps contribution_def)
  next
    case True
    with Cons.prems entry w obtain wd where wd: "entry_width ovs c img = Inr wd"
      by (cases "entry_width ovs c img") auto
    from Cons.prems entry w True wd have
      "unihex_lines self (map make_override ovs) hex
         (AList.update c (unihex_advance self wd) adv0) = Inr adv"
      by (simp split: if_splits)
    from Cons.IH [OF this] show ?thesis using entry True wd
      by (simp add: List.map_filter_simps contribution_def unihex_advance_def)
  qed
qed

lemma unihex_lines_widths:
  assumes "unihex_mode self \<noteq> ModeNone"
    and "unihex_lines self (map make_override ovs) hex adv0 = Inr adv"
    and "(c, img) \<in> set hex" and "included (unihex_mode self) ovs c"
  shows "\<exists>w. entry_width ovs c img = Inr w"
  using assms(2,3)
proof (induction hex arbitrary: adv0)
  case Nil
  then show ?case by simp
next
  case (Cons entry hex)
  obtain c' img' where entry: "entry = (c', img')" by (cases entry)
  note w = unihex_width_included [OF assms(1), of ovs c' img']
  show ?case
  proof (cases "(c, img) = entry")
    case True
    with entry have "c' = c" "img' = img" by simp_all
    with Cons.prems(1) entry w assms(4) show ?thesis
      by (cases "entry_width ovs c img") auto
  next
    case False
    with Cons.prems(2) have mem: "(c, img) \<in> set hex" by simp
    from Cons.prems(1) entry obtain adv1 where
      "unihex_lines self (map make_override ovs) hex adv1 = Inr adv"
      by (auto split: sum.splits option.splits if_splits)
    from Cons.IH [OF this mem] show ?thesis .
  qed
qed

lemma convert_unihex_provider_result:
  assumes "convert_unihex_provider self fs hex_file ovs = Inr r"
  shows "(unihex_mode self = ModeNone \<longrightarrow> r = None)
    \<and> (unihex_mode self \<noteq> ModeNone \<longrightarrow>
        (\<exists>path entries hex.
           get_resource_path self fs hex_file [] [] False = Inr path
           \<and> fs path = Some (ZipFile entries) \<and> find_hex entries = Some hex
           \<and> (\<forall>(c, img)\<in>set hex. included (unihex_mode self) ovs c \<longrightarrow>
                 (\<exists>w. entry_width ovs c img = Inr w))
           \<and> r = (let adv = dict_update [] (List.map_filter (contribution self ovs) hex)
                  in if adv = [] then None else Some (space_provider adv))))"
proof (cases "unihex_mode self = ModeNone")
  case True
  with assms show ?thesis by (simp add: convert_unihex_provider_def)
next
  case False
  from assms False obtain path where
    path: "get_resource_path self fs hex_file [] [] False = Inr path"
    by (cases "get_resource_path self fs hex_file [] [] False")
       (auto simp: convert_unihex_provider_def)
  from assms False path obtain entries where entries: "fs path = Some (ZipFile entries)"
    by (auto simp: convert_unihex_provider_def split: option.splits resource.splits)
  from assms False path entries obtain hex where hex: "find_hex entries = Some hex"
    by (auto simp: convert_unihex_provider_def split: option.splits)
  from assms False path entries hex obtain adv where
    adv: "unihex_lines self (map make_override ovs) hex [] = Inr adv"
    and r: "r = (if adv = [] then None else Some (space_provider adv))"
    by (auto simp: convert_unihex_provider_def split: sum.splits if_splits)
  have fold: "adv = dict_update [] (List.map_filter (contribution self ovs) hex)"
    by (rule unihex_lines_fold [OF False adv])
  have widths: "\<forall>(c, img)\<in>set hex. included (unihex_mode self) ovs c \<longrightarrow>
                 (\<exists>w. entry_width ovs c img = Inr w)"
    using unihex_lines_widths [OF False adv] by blast
  show ?thesis using False path entries hex widths r fold by (simp add: Let_def)
qed

text \<open>
  C2, as amended. A unihex conversion that returns gives \<open>None\<close> under the mode
  \<open>none\<close>. Under every other mode the hex file is found, every line whose code is
  included has a width, and the advance map is the dictionary built, in file order, from
  the contributions of the included lines: under \<open>ascii\<close> the codes up to 256, under
  \<open>all_named\<close> the codes up to 256 and the codes inside a size-override range, under
  \<open>all\<close> every code. The width of an included line is the fixed width of the first
  override range holding its code (\<open>right - left + 1\<close>, or \<open>0\<close> when both ends of the
  range are code 0), else the extent of its bitmap; its advance is
  \<open>(trunc(0.5 * width) + 1) * factor\<close>. The result is \<open>None\<close> when that map is empty.
\<close>

theorem convert_unihex_provider_entries:
  assumes "convert_unihex_provider self fs hex_file ovs = Inr r"
  shows "(unihex_mode self = ModeNone \<longrightarrow> r = None)
    \<and> (unihex_mode self \<noteq> ModeNone \<longrightarrow>
        (\<exists>path entries hex.
           get_resource_path self fs hex_file [] [] False = Inr path
           \<and> fs path = Some (ZipFile entries) \<and> find_hex entries = Some hex
           \<and> (\<forall>(c, img)\<in>set hex. included (unihex_mode self) ovs c \<longrightarrow>
                 (\<exists>w. entry_width ovs c img = Inr w))
           \<and> r = (let adv = dict_update [] (List.map_filter (contribution self ovs) hex)
                  in if adv = [] then None else Some (space_provider adv))))"
  using assms by (rule convert_unihex_provider_result)

subsection \<open>Glyph cells\<close>









subsection \<open>The last occurrence of a character\<close>

lemma map_of_rev_last:
  "map_of (rev es) c =
     (case filter (\<lambda>kv. fst kv = c) es of [] \<Rightarrow> None | x # xs \<Rightarrow> Some (snd (last (x # xs))))"
proof (induction es rule: rev_induct)
  case Nil
  then show ?case by simp
next
  case (snoc kv es)
  obtain k v where kv: "kv = (k, v)" by (cases kv)
  show ?case
  proof (cases "k = c")
    case True
    then show ?thesis using kv
      by (cases "filter (\<lambda>kv. fst kv = c) es") simp_all
  next
    case False
    then show ?thesis using kv snoc by simp
  qed
qed

lemma filter_key_dict_update:
  "filter (\<lambda>kv. fst kv = c) (dict_update [] es) =
     (case filter (\<lambda>kv. fst kv = c) es of [] \<Rightarrow> [] | x # xs \<Rightarrow> [last (x # xs)])"
proof -
  have d: "distinct (map fst (dict_update [] es))"
    by (rule distinct_dict_update) simp
  have m: "map_of (dict_update [] es) c = map_of (rev es) c"
    by (simp add: map_of_dict_update_rev)
  show ?thesis
  proof (cases "filter (\<lambda>kv. fst kv = c) es")
    case Nil
    then show ?thesis
      by (simp add: filter_key_distinct [OF d] m map_of_rev_last)
  next
    case (Cons x xs)
    have "last (x # xs) \<in> set (filter (\<lambda>kv. fst kv = c) es)"
      unfolding Cons by (rule last_in_set) simp
    then have "fst (last (x # xs)) = c" by simp
    then have "(c, snd (last (x # xs))) = last (x # xs)"
      by (metis prod.collapse)
    then show ?thesis using Cons
      by (simp add: filter_key_distinct [OF d] m map_of_rev_last)
  qed
qed

lemma bitmap_row_fold:
  assumes "bitmap_row self img height char_width char_height y cells result = Inr result'"
  shows "result' = dict_update result
           (List.map_filter (cell_contribution self img height char_width char_height y) cells)
       \<and> map fst (List.map_filter (cell_contribution self img height char_width char_height y) cells)
           = filter (\<lambda>ch. ch \<noteq> 0 \<and> ch \<noteq> 32) (map snd cells)"
  using assms
proof (induction cells arbitrary: result)
  case Nil
  then show ?case by (simp add: List.map_filter_simps)
next
  case (Cons cell cells)
  obtain x char where cell: "cell = (x, char)" by (cases cell)
  show ?case
  proof (cases "char = 0 \<or> char = 32")
    case True
    then show ?thesis using Cons cell
      by (auto simp: List.map_filter_simps cell_contribution_def)
  next
    case False
    with Cons.prems cell obtain a where
      a: "cell_advance self img height char_width char_height x y = Inr a"
      by (cases "cell_advance self img height char_width char_height x y") auto
    with Cons.prems cell False have
      "bitmap_row self img height char_width char_height y cells (AList.update char a result)
         = Inr result'" by simp
    from Cons.IH [OF this] show ?thesis using cell False a
      by (simp add: List.map_filter_simps cell_contribution_def)
  qed
qed

lemma bitmap_lines_fold:
  assumes "bitmap_lines self img height num_rows ylines result = Inr result'"
  shows "result' = dict_update result
           (concat (map (line_contributions self img height num_rows) ylines))
       \<and> map fst (concat (map (line_contributions self img height num_rows) ylines))
           = filter (\<lambda>ch. ch \<noteq> 0 \<and> ch \<noteq> 32) (concat (map snd ylines))"
  using assms
proof (induction ylines arbitrary: result)
  case Nil
  then show ?case by simp
next
  case (Cons yline ylines)
  obtain y line where yline: "yline = (y, line)" by (cases yline)
  from Cons.prems yline obtain result1 where
    row: "bitmap_row self img height (img_width img div length line)
            (img_height img div num_rows) y (enumerate 0 line) result = Inr result1"
    and rest: "bitmap_lines self img height num_rows ylines result1 = Inr result'"
    by (auto simp: Let_def split: if_splits sum.splits)
  from bitmap_row_fold [OF row] Cons.IH [OF rest] show ?case using yline
    by (simp add: line_contributions_def dict_update_append map_snd_enumerate)
qed

lemma convert_bitmap_provider_fold:
  assumes "convert_bitmap_provider self fs file chars height_opt = Inr p"
  shows "\<exists>path img.
     get_resource_path self fs file ''textures'' [] False = Inr path
     \<and> fs path = Some (ImageFile img)
     \<and> p = space_provider (dict_update []
             (bitmap_contributions self img (case height_opt of None \<Rightarrow> 8 | Some h \<Rightarrow> h) chars))
     \<and> map fst (bitmap_contributions self img (case height_opt of None \<Rightarrow> 8 | Some h \<Rightarrow> h) chars)
         = filter (\<lambda>ch. ch \<noteq> 0 \<and> ch \<noteq> 32) (concat chars)"
proof -
  from assms obtain path where
    path: "get_resource_path self fs file ''textures'' [] False = Inr path"
    by (cases "get_resource_path self fs file ''textures'' [] False")
       (auto simp: convert_bitmap_provider_def)
  from assms path obtain img where img: "fs path = Some (ImageFile img)"
    by (auto simp: convert_bitmap_provider_def Let_def split: option.splits resource.splits)
  from assms path img obtain result where
    lines: "bitmap_lines self img (case height_opt of None \<Rightarrow> 8 | Some h \<Rightarrow> h)
              (length chars) (enumerate 0 chars) [] = Inr result"
    and p: "p = space_provider result"
    by (auto simp: convert_bitmap_provider_def Let_def split: sum.splits)
  from bitmap_lines_fold [OF lines] show ?thesis using path img p
    by (simp add: bitmap_contributions_def map_snd_enumerate)
qed

lemma unihex_contribution_keys:
  assumes "unihex_mode self \<noteq> ModeNone"
    and "unihex_lines self (map make_override ovs) hex adv0 = Inr adv"
  shows "map fst (List.map_filter (contribution self ovs) hex)
           = filter (included (unihex_mode self) ovs) (map fst hex)"
  using assms(2)
proof (induction hex arbitrary: adv0)
  case Nil
  then show ?case by (simp add: List.map_filter_simps)
next
  case (Cons entry hex)
  obtain c img where entry: "entry = (c, img)" by (cases entry)
  note w = unihex_width_included [OF assms(1), of ovs c img]
  from Cons.prems entry obtain adv1 where
    rest: "unihex_lines self (map make_override ovs) hex adv1 = Inr adv"
    by (auto split: sum.splits option.splits if_splits)
  show ?case
  proof (cases "included (unihex_mode self) ovs c")
    case False
    then show ?thesis using Cons.IH [OF rest] entry
      by (simp add: List.map_filter_simps contribution_def)
  next
    case True
    with Cons.prems entry w obtain wd where wd: "entry_width ovs c img = Inr wd"
      by (cases "entry_width ovs c img") auto
    then show ?thesis using Cons.IH [OF rest] entry True
      by (simp add: List.map_filter_simps contribution_def)
  qed
qed

lemma advances_of_space_provider [simp]: "advances_of (space_provider a) = a"
  by (simp add: advances_of_def space_provider_def)

text \<open>
  C10. The advance map of a converted bitmap or unihex provider holds, for every
  character \<open>c\<close>, no entry when no visited source has \<open>c\<close>, and otherwise exactly one
  entry: the pair computed at the last visited occurrence of \<open>c\<close>. The visited sources
  are the cells of the grid in row-major order whose character is neither NUL nor space,
  and the included lines of the hex file in file order.
\<close>

theorem last_occurrence_wins:
  "(convert_bitmap_provider self fs image_file chars height_opt = Inr p \<longrightarrow>
      (\<exists>path img visited.
         get_resource_path self fs image_file ''textures'' [] False = Inr path
         \<and> fs path = Some (ImageFile img)
         \<and> visited = bitmap_contributions self img
                       (case height_opt of None \<Rightarrow> 8 | Some h \<Rightarrow> h) chars
         \<and> map fst visited = filter (\<lambda>ch. ch \<noteq> 0 \<and> ch \<noteq> 32) (concat chars)
         \<and> filter (\<lambda>kv. fst kv = c) (advances_of p) =
             (case filter (\<lambda>kv. fst kv = c) visited of
                [] \<Rightarrow> [] | x # xs \<Rightarrow> [last (x # xs)])))
   \<and> (convert_unihex_provider self fs hex_file ovs = Inr (Some q) \<longrightarrow>
      (\<exists>path entries hex visited.
         get_resource_path self fs hex_file [] [] False = Inr path
         \<and> fs path = Some (ZipFile entries) \<and> find_hex entries = Some hex
         \<and> visited = List.map_filter (contribution self ovs) hex
         \<and> map fst visited = filter (included (unihex_mode self) ovs) (map fst hex)
         \<and> filter (\<lambda>kv. fst kv = c) (advances_of q) =
             (case filter (\<lambda>kv. fst kv = c) visited of
                [] \<Rightarrow> [] | x # xs \<Rightarrow> [last (x # xs)])))"
proof (intro conjI impI)
  assume "convert_bitmap_provider self fs image_file chars height_opt = Inr p"
  from convert_bitmap_provider_fold [OF this] obtain path img where
    a: "get_resource_path self fs image_file ''textures'' [] False = Inr path"
       "fs path = Some (ImageFile img)"
       "p = space_provider (dict_update []
             (bitmap_contributions self img (case height_opt of None \<Rightarrow> 8 | Some h \<Rightarrow> h) chars))"
       "map fst (bitmap_contributions self img (case height_opt of None \<Rightarrow> 8 | Some h \<Rightarrow> h) chars)
         = filter (\<lambda>ch. ch \<noteq> 0 \<and> ch \<noteq> 32) (concat chars)"
    by blast
  show "\<exists>path img visited.
         get_resource_path self fs image_file ''textures'' [] False = Inr path
         \<and> fs path = Some (ImageFile img)
         \<and> visited = bitmap_contributions self img
                       (case height_opt of None \<Rightarrow> 8 | Some h \<Rightarrow> h) chars
         \<and> map fst visited = filter (\<lambda>ch. ch \<noteq> 0 \<and> ch \<noteq> 32) (concat chars)
         \<and> filter (\<lambda>kv. fst kv = c) (advances_of p) =
             (case filter (\<lambda>kv. fst kv = c) visited of
                [] \<Rightarrow> [] | x # xs \<Rightarrow> [last (x # xs)])"
    using a by (simp add: filter_key_dict_update)
next
  assume run: "convert_unihex_provider self fs hex_file ovs = Inr (Some q)"
  then have mode: "unihex_mode self \<noteq> ModeNone"
    by (auto simp: convert_unihex_provider_def)
  from run mode obtain path where
    path: "get_resource_path self fs hex_file [] [] False = Inr path"
    by (cases "get_resource_path self fs hex_file [] [] False")
       (auto simp: convert_unihex_provider_def)
  from run mode path obtain entries where entries: "fs path = Some (ZipFile entries)"
    by (auto simp: convert_unihex_provider_def split: option.splits resource.splits)
  from run mode path entries obtain hex where hex: "find_hex entries = Some hex"
    by (auto simp: convert_unihex_provider_def split: option.splits)
  from run mode path entries hex obtain adv where
    adv: "unihex_lines self (map make_override ovs) hex [] = Inr adv"
    and q: "q = space_provider adv"
    by (auto simp: convert_unihex_provider_def split: sum.splits if_splits)
  have fold: "adv = dict_update [] (List.map_filter (contribution self ovs) hex)"
    by (rule unihex_lines_fold [OF mode adv])
  note keys = unihex_contribution_keys [OF mode adv]
  show "\<exists>path entries hex visited.
         get_resource_path self fs hex_file [] [] False = Inr path
         \<and> fs path = Some (ZipFile entries) \<and> find_hex entries = Some hex
         \<and> visited = List.map_filter (contribution self ovs) hex
         \<and> map fst visited = filter (included (unihex_mode self) ovs) (map fst hex)
         \<and> filter (\<lambda>kv. fst kv = c) (advances_of q) =
             (case filter (\<lambda>kv. fst kv = c) visited of
                [] \<Rightarrow> [] | x # xs \<Rightarrow> [last (x # xs)])"
    using path entries hex q fold keys by (simp add: filter_key_dict_update)
qed

lemma glyph_18_extent: "read_hex_bitmap glyph_18 = Inr 2"
  by code_simp

lemma glyph_3C_extent: "read_hex_bitmap glyph_3C = Inr 4"
  by code_simp



lemma example_bitmap_run:
  "convert_bitmap_provider (example_converter ModeAscii)
     [''p/assets/minecraft/textures/a.png'' \<mapsto> ImageFile example_image] ''a.png'' [[65, 65]] None
   = Inr (space_provider [(65, PFloat 3)])"
  by code_simp

lemma example_bitmap_visited:
  "bitmap_contributions (example_converter ModeAscii) example_image 8 [[65, 65]]
     = [(65, PFloat 6), (65, PFloat 3)]"
  by code_simp


lemma example_bitmap_path:
  "get_resource_path (example_converter ModeAscii)
     [''p/assets/minecraft/textures/a.png'' \<mapsto> ImageFile example_image]
     ''a.png'' ''textures'' [] False
   = Inr ''p/assets/minecraft/textures/a.png''"
  by code_simp

lemma example_unihex_path:
  "get_resource_path (example_converter mode) fs ''u.zip'' [] [] False
     = Inr ''p/assets/minecraft/u.zip''"
  by (simp add: get_resource_path_def path_join_def join_step_def)

lemma find_hex_single: "find_hex [(''u.hex'', lines)] = Some lines"
  by (simp add: find_hex_def endswith_def)

lemma example_unihex_lines_all:
  "unihex_lines (example_converter ModeAll) [] [(65, glyph_18), (65, glyph_3C)] []
     = Inr [(65, PFloat 3)]"
  by (simp add: unihex_width_def glyph_18_extent glyph_3C_extent chr_ok_def
        unihex_advance_def trunc_def)

lemma example_unihex_run_all:
  "convert_unihex_provider (example_converter ModeAll)
     [''p/assets/minecraft/u.zip'' \<mapsto> ZipFile [(''u.hex'', [(65, glyph_18), (65, glyph_3C)])]]
     ''u.zip'' []
   = Inr (Some (space_provider [(65, PFloat 3)]))"
  by (simp add: convert_unihex_provider_def example_unihex_path find_hex_single
        example_unihex_lines_all del: unihex_lines.simps)

lemma example_unihex_visited:
  "List.map_filter (contribution (example_converter ModeAll) []) [(65, glyph_18), (65, glyph_3C)]
     = [(65, PFloat 2), (65, PFloat 3)]"
  by (simp add: List.map_filter_simps contribution_def included_def entry_width_def
        glyph_18_extent glyph_3C_extent trunc_def)

text \<open>
  The character \<open>A\<close> in two cells of a grid, and on two lines of a hex file: the map
  holds the advance of the second occurrence only.
\<close>

theorem last_occurrence_wins_witness:
  "convert_bitmap_provider (example_converter ModeAscii)
     [''p/assets/minecraft/textures/a.png'' \<mapsto> ImageFile example_image] ''a.png'' [[65, 65]] None
     = Inr (space_provider [(65, PFloat 3)])
   \<and> bitmap_contributions (example_converter ModeAscii) example_image 8 [[65, 65]]
     = [(65, PFloat 6), (65, PFloat 3)]
   \<and> convert_unihex_provider (example_converter ModeAll)
     [''p/assets/minecraft/u.zip'' \<mapsto> ZipFile [(''u.hex'', [(65, glyph_18), (65, glyph_3C)])]]
     ''u.zip'' []
     = Inr (Some (space_provider [(65, PFloat 3)]))
   \<and> List.map_filter (contribution (example_converter ModeAll) []) [(65, glyph_18), (65, glyph_3C)]
     = [(65, PFloat 2), (65, PFloat 3)]
   \<and> filter (\<lambda>kv. fst kv = 65) (advances_of (space_provider [(65, PFloat 3)]))
     = [(65, PFloat 3)]"
proof -
  note inst = last_occurrence_wins [where c = 65
      and self = "example_converter ModeAscii"
      and fs = "[''p/assets/minecraft/textures/a.png'' \<mapsto> ImageFile example_image]"
      and image_file = "''a.png''" and chars = "[[65, 65]]" and height_opt = None
      and p = "space_provider [(65, PFloat 3)]"]
  from inst have "convert_bitmap_provider (example_converter ModeAscii)
       [''p/assets/minecraft/textures/a.png'' \<mapsto> ImageFile example_image] ''a.png'' [[65, 65]] None
       = Inr (space_provider [(65, PFloat 3)]) \<longrightarrow>
      (\<exists>path img visited.
         get_resource_path (example_converter ModeAscii)
           [''p/assets/minecraft/textures/a.png'' \<mapsto> ImageFile example_image]
           ''a.png'' ''textures'' [] False = Inr path
         \<and> [''p/assets/minecraft/textures/a.png'' \<mapsto> ImageFile example_image] path
             = Some (ImageFile img)
         \<and> visited = bitmap_contributions (example_converter ModeAscii) img
                       (case None of None \<Rightarrow> 8 | Some h \<Rightarrow> h) [[65, 65]]
         \<and> map fst visited = filter (\<lambda>ch. ch \<noteq> 0 \<and> ch \<noteq> 32) (concat [[65, 65]])
         \<and> filter (\<lambda>kv. fst kv = 65) (advances_of (space_provider [(65, PFloat 3)])) =
             (case filter (\<lambda>kv. fst kv = 65) visited of
                [] \<Rightarrow> [] | x # xs \<Rightarrow> [last (x # xs)]))"
    by (rule conjunct1)
  from this example_bitmap_run obtain path img visited where
    a: "get_resource_path (example_converter ModeAscii)
          [''p/assets/minecraft/textures/a.png'' \<mapsto> ImageFile example_image]
          ''a.png'' ''textures'' [] False = Inr path"
    and b: "[''p/assets/minecraft/textures/a.png'' \<mapsto> ImageFile example_image] path
          = Some (ImageFile img)"
    and v: "visited = bitmap_contributions (example_converter ModeAscii) img
                       (case None of None \<Rightarrow> 8 | Some h \<Rightarrow> h) [[65, 65]]"
    and c: "filter (\<lambda>kv. fst kv = 65) (advances_of (space_provider [(65, PFloat 3)])) =
             (case filter (\<lambda>kv. fst kv = 65) visited of
                [] \<Rightarrow> [] | x # xs \<Rightarrow> [last (x # xs)])"
    by blast
  from a example_bitmap_path have "path = ''p/assets/minecraft/textures/a.png''" by simp
  with b have "img = example_image" by simp
  with v have "visited = [(65, PFloat 6), (65, PFloat 3)]"
    by (simp add: example_bitmap_visited)
  with c have "filter (\<lambda>kv. fst kv = 65) (advances_of (space_provider [(65, PFloat 3)]))
     = [(65, PFloat 3)]"
    by simp
  then show ?thesis
    using example_bitmap_run example_bitmap_visited example_unihex_run_all example_unihex_visited
    by (simp only: simp_thms)
qed


lemma example_unihex_lines_ascii:
  "unihex_lines (example_converter ModeAscii) [] [(65, glyph_18), (9731, glyph_3C)] []
     = Inr [(65, PFloat 2)]"
  by (simp add: unihex_width_def glyph_18_extent glyph_3C_extent chr_ok_def
        unihex_advance_def trunc_def)

lemma example_unihex_run_ascii:
  "convert_unihex_provider (example_converter ModeAscii)
     [''p/assets/minecraft/u.zip'' \<mapsto> ZipFile [(''u.hex'', [(65, glyph_18), (9731, glyph_3C)])]]
     ''u.zip'' []
   = Inr (Some (space_provider [(65, PFloat 2)]))"
  by (simp add: convert_unihex_provider_def example_unihex_path find_hex_single
        example_unihex_lines_ascii del: unihex_lines.simps)

lemma example_unihex_lines_all_named:
  "unihex_lines (example_converter ModeAllNamed) [] [(65, glyph_18), (9731, glyph_3C)] []
     = Inr [(65, PFloat 2)]"
  by (simp add: unihex_width_def glyph_18_extent glyph_3C_extent chr_ok_def
        unihex_advance_def trunc_def)

text \<open>
  Under \<open>ascii\<close>, of the lines for the codes 65 and 9731 only 65 is in the output.
\<close>

theorem convert_unihex_provider_entries_witness:
  "convert_unihex_provider (example_converter ModeAscii)
     [''p/assets/minecraft/u.zip'' \<mapsto> ZipFile [(''u.hex'', [(65, glyph_18), (9731, glyph_3C)])]]
     ''u.zip'' []
   = Inr (Some (space_provider [(65, PFloat 2)]))
   \<and> Some (space_provider [(65, PFloat 2)]) =
     (let adv = dict_update [] (List.map_filter (contribution (example_converter ModeAscii) [])
                                  [(65, glyph_18), (9731, glyph_3C)])
      in if adv = [] then None else Some (space_provider adv))"
proof -
  let ?fs = "[''p/assets/minecraft/u.zip'' \<mapsto>
               ZipFile [(''u.hex'', [(65, glyph_18), (9731, glyph_3C)])]]"
  have mode: "unihex_mode (example_converter ModeAscii) \<noteq> ModeNone" by simp
  from convert_unihex_provider_entries [OF example_unihex_run_ascii]
  have "unihex_mode (example_converter ModeAscii) \<noteq> ModeNone \<longrightarrow>
        (\<exists>path entries hex.
           get_resource_path (example_converter ModeAscii) ?fs ''u.zip'' [] [] False = Inr path
           \<and> ?fs path = Some (ZipFile entries) \<and> find_hex entries = Some hex
           \<and> (\<forall>(c, img)\<in>set hex. included (unihex_mode (example_converter ModeAscii)) [] c \<longrightarrow>
                 (\<exists>w. entry_width [] c img = Inr w))
           \<and> Some (space_provider [(65, PFloat 2)])
               = (let adv = dict_update []
                              (List.map_filter (contribution (example_converter ModeAscii) []) hex)
                  in if adv = [] then None else Some (space_provider adv)))"
    by (rule conjunct2)
  from this mode obtain path entries hex where
    a: "get_resource_path (example_converter ModeAscii) ?fs ''u.zip'' [] [] False = Inr path"
    and b: "?fs path = Some (ZipFile entries)" and c: "find_hex entries = Some hex"
    and d: "Some (space_provider [(65, PFloat 2)])
               = (let adv = dict_update []
                              (List.map_filter (contribution (example_converter ModeAscii) []) hex)
                  in if adv = [] then None else Some (space_provider adv))"
    by blast
  from a have "path = ''p/assets/minecraft/u.zip''" by (simp add: example_unihex_path)
  with b have "entries = [(''u.hex'', [(65, glyph_18), (9731, glyph_3C)])]" by simp
  with c have "hex = [(65, glyph_18), (9731, glyph_3C)]" by (simp add: find_hex_single)
  with d example_unihex_run_ascii show ?thesis by (simp only: simp_thms)
qed

text \<open>
  C2 as stated fails under \<open>all_named\<close>: the line for code 9731 has a defined glyph
  (extent 4), so the claim includes it, while the conversion skips it and emits code 65
  only.
\<close>

theorem unihex_all_named_counterexample:
  "claimed_included ModeAllNamed [] 9731 glyph_3C
   \<and> read_hex_bitmap glyph_3C = Inr 4
   \<and> unihex_width ModeAllNamed (map make_override []) 9731 glyph_3C = Inr None
   \<and> convert_unihex_provider (example_converter ModeAllNamed)
       [''p/assets/minecraft/u.zip'' \<mapsto> ZipFile [(''u.hex'', [(65, glyph_18), (9731, glyph_3C)])]]
       ''u.zip'' []
     = Inr (Some (space_provider [(65, PFloat 2)]))"
proof -
  have a: "claimed_included ModeAllNamed [] 9731 glyph_3C"
    by (simp add: claimed_included_def defined_glyph_def glyph_3C_extent)
  have b: "unihex_width ModeAllNamed (map make_override []) 9731 glyph_3C = Inr None"
    by (simp add: unihex_width_def)
  have c: "convert_unihex_provider (example_converter ModeAllNamed)
       [''p/assets/minecraft/u.zip'' \<mapsto> ZipFile [(''u.hex'', [(65, glyph_18), (9731, glyph_3C)])]]
       ''u.zip'' []
     = Inr (Some (space_provider [(65, PFloat 2)]))"
    by (simp add: convert_unihex_provider_def example_unihex_path find_hex_single
          example_unihex_lines_all_named del: unihex_lines.simps)
  from a glyph_3C_extent b c show ?thesis by (simp only: simp_thms)
qed

subsection \<open>Converted providers\<close>

lemma fold_update_distinct:
  "distinct (map fst d) \<Longrightarrow> distinct (map fst (fold (\<lambda>(k, v). AList.update k (f k v)) e d))"
  by (induction e arbitrary: d) (auto simp: distinct_update)

lemma ttf_chars_distinct:
  "ttf_chars self oversample skip cs adv = Inr adv' \<Longrightarrow> distinct (map fst adv)
     \<Longrightarrow> distinct (map fst adv')"
  by (induction cs arbitrary: adv) (auto simp: distinct_update split: if_splits)

lemma distinct_dict_update_Nil: "distinct (map fst (dict_update [] e))"
  by (rule distinct_dict_update) simp

lemma convert_provider_shape:
  assumes "convert_provider conv self w p = Inr (Some c, w')"
  shows "pfilter c = None"
    and "(\<exists>R. kind c = Reference R) \<or> (\<exists>a. kind c = Space a \<and> distinct (map fst a))"
proof -
  have "pfilter c = None
     \<and> ((\<exists>R. kind c = Reference R) \<or> (\<exists>a. kind c = Space a \<and> distinct (map fst a)))"
  proof (cases "kind p")
    case (Reference R)
    with assms show ?thesis
      by (auto simp: convert_provider_def convert_reference_provider_def split: sum.splits)
  next
    case (Space a)
    with assms show ?thesis
      by (auto simp: convert_provider_def convert_space_provider_def space_provider_def
            fold_update_distinct)
  next
    case (Ttf f s ov sk)
    with assms show ?thesis
      by (auto simp: convert_provider_def convert_ttf_provider_def space_provider_def Let_def
            split: sum.splits option.splits resource.splits dest: ttf_chars_distinct)
  next
    case (Bitmap f chars h)
    with assms have "convert_bitmap_provider self (files w) f chars h = Inr c"
      by (auto simp: convert_provider_def split: sum.splits)
    from convert_bitmap_provider_fold [OF this] show ?thesis
      by (auto simp: space_provider_def distinct_dict_update_Nil)
  next
    case (Unihex f ovs)
    with assms have run: "convert_unihex_provider self (files w) f ovs = Inr (Some c)"
      by (auto simp: convert_provider_def split: sum.splits)
    from convert_unihex_provider_result [OF run] run show ?thesis
      by (auto simp: space_provider_def Let_def convert_unihex_provider_def
            distinct_dict_update_Nil split: if_splits)
  next
    case (OtherKind t)
    with assms show ?thesis by (simp add: convert_provider_def)
  qed
  then show "pfilter c = None"
    and "(\<exists>R. kind c = Reference R) \<or> (\<exists>a. kind c = Space a \<and> distinct (map fst a))"
    by simp_all
qed

lemma is_space_assure [simp]: "is_space (assure_integers c) = is_space c"
  by (cases "kind c") (simp_all add: is_space_def assure_integers_def)

lemma pfilter_assure [simp]: "pfilter (assure_integers c) = pfilter c"
  by (cases "kind c") (simp_all add: assure_integers_def)

lemma is_space_pfilter_update [simp]: "is_space (c\<lparr>pfilter := f\<rparr>) = is_space c"
  by (simp add: is_space_def)

lemma mergeable_assure: "pfilter c = None \<Longrightarrow> mergeable (assure_integers c) = is_space c"
  by (simp add: mergeable_def)

lemma not_mergeable_filtered: "\<not> mergeable (c\<lparr>pfilter := Some f\<rparr>)"
  by (simp add: mergeable_def)

lemma convert_loop_all:
  "convert_loop conv self w olds (sps, ots) =
     (case convert_all conv self w olds of
        Inl e \<Rightarrow> Inl e
      | Inr (cs, w') \<Rightarrow>
          Inr ((sps @ filter mergeable cs, ots @ filter (\<lambda>p. \<not> mergeable p) cs), w'))"
proof (induction olds arbitrary: w sps ots)
  case Nil
  then show ?case by simp
next
  case (Cons old olds)
  show ?case
  proof (cases "convert_provider conv self w old")
    case (Inl e)
    then show ?thesis by simp
  next
    case (Inr rw)
    obtain r w1 where rw: "rw = (r, w1)" by (cases rw)
    show ?thesis
    proof (cases r)
      case None
      then show ?thesis using Inr rw Cons.IH [of w1 sps ots]
        by (simp split: sum.splits)
    next
      case (Some c)
      with Inr rw have "convert_provider conv self w old = Inr (Some c, w1)" by simp
      then have nf: "pfilter c = None" by (rule convert_provider_shape(1))
      show ?thesis
      proof (cases "pfilter old")
        case None
        then show ?thesis
          using Inr rw Some nf
            Cons.IH [of w1 "sps @ [assure_integers c]" ots]
            Cons.IH [of w1 sps "ots @ [assure_integers c]"]
          by (simp add: Let_def mergeable_assure split: sum.splits)
      next
        case (Some f)
        then show ?thesis
          using Inr rw \<open>r = Some c\<close>
            Cons.IH [of w1 sps "ots @ [(assure_integers c)\<lparr>pfilter := Some f\<rparr>]"]
          by (simp add: Let_def not_mergeable_filtered split: sum.splits)
      qed
    qed
  qed
qed

subsection \<open>The merge loop\<close>

lemma merge_advances_snoc2:
  "merge_advances (ds @ [a, b]) = merge_advances (ds @ [dict_update a b])"
proof (induction ds rule: merge_advances.induct)
  case 1
  then show ?case by simp
next
  case (2 d)
  then show ?case by simp
next
  case (3 d e rest)
  then show ?case by simp
qed

lemma mergeable_space_provider: "mergeable p \<Longrightarrow> p = space_provider (advances_of p)"
  by (cases p, cases "kind p")
     (simp_all add: mergeable_def is_space_def space_provider_def advances_of_def)

lemma mergeable_space_provider_iff [simp]: "mergeable (space_provider a)"
  by (simp add: mergeable_def is_space_def space_provider_def)

lemma merge_into_mergeable:
  "mergeable p \<Longrightarrow> mergeable q \<Longrightarrow>
   merge_into p q = Inr (space_provider (dict_update (advances_of p) (advances_of q)))"
  by (cases p, cases q, cases "kind p"; cases "kind q")
     (simp_all add: mergeable_def is_space_def merge_into_def advances_of_def space_provider_def)

lemma merge_loop_spec:
  "\<forall>p\<in>set sps. mergeable p \<Longrightarrow>
   merge_loop sps =
     Inr (if sps = [] then [] else [space_provider (merge_advances (map advances_of sps))])"
proof (induction sps rule: merge_loop.induct)
  case (1 sps)
  show ?case
  proof (cases "length sps > 1")
    case False
    then have "sps = [] \<or> (\<exists>p. sps = [p])"
      by (cases sps) (auto simp: length_Suc_conv)
    then show ?thesis
    proof
      assume "sps = []"
      then show ?thesis by (simp add: merge_loop.simps)
    next
      assume "\<exists>p. sps = [p]"
      then obtain p where p: "sps = [p]" ..
      with 1(2) have "mergeable p" by simp
      then have "p = space_provider (advances_of p)" by (rule mergeable_space_provider)
      then show ?thesis using p by (simp add: merge_loop.simps)
    qed
  next
    case True
    then have ne: "sps \<noteq> []" by auto
    have ne2: "butlast sps \<noteq> []"
    proof
      assume "butlast sps = []"
      then have "length (butlast sps) = 0" by (simp only: list.size)
      then have "length sps - 1 = 0" by (simp only: length_butlast)
      with True show False by linarith
    qed
    have "butlast (butlast sps) @ [last (butlast sps)] = butlast sps"
      using ne2 by (rule append_butlast_last_id)
    moreover have "butlast sps @ [last sps] = sps"
      using ne by (rule append_butlast_last_id)
    ultimately have "sps = butlast (butlast sps) @ [last (butlast sps), last sps]"
      by (metis append_Cons append_Nil append_assoc)
    then obtain front x y where sps: "sps = front @ [x, y]" by blast
    from 1(2) sps have mx: "mergeable x" and my: "mergeable y"
      and mf: "\<forall>p\<in>set front. mergeable p" by simp_all
    define merged where "merged = space_provider (dict_update (advances_of x) (advances_of y))"
    have mi: "merge_into x y = Inr merged"
      unfolding merged_def using mx my by (rule merge_into_mergeable)
    have l: "last sps = y" "butlast sps = front @ [x]" using sps by (simp_all add: butlast_append)
    then have l2: "last (butlast sps) = x" "butlast (butlast sps) = front" by simp_all
    have all: "\<forall>p\<in>set (front @ [merged]). mergeable p"
      using mf by (simp add: merged_def)
    have IH: "merge_loop (front @ [merged]) =
        Inr (if front @ [merged] = [] then []
             else [space_provider (merge_advances (map advances_of (front @ [merged])))])"
      using 1(1) [OF True refl refl, of merged] mi l l2 all by simp
    have "merge_loop sps = merge_loop (front @ [merged])"
      using True mi l l2 by (subst merge_loop.simps) (simp add: Let_def)
    also note IH
    finally show ?thesis using sps
      by (simp add: merged_def merge_advances_snoc2)
  qed
qed

lemma foldl_map_add: "foldl (++) x ms = x ++ foldl (++) Map.empty ms"
proof (induction ms arbitrary: x)
  case Nil
  then show ?case by simp
next
  case (Cons m ms)
  have "foldl (++) (x ++ m) ms = (x ++ m) ++ foldl (++) Map.empty ms" by (rule Cons.IH)
  moreover have "foldl (++) (Map.empty ++ m) ms = (Map.empty ++ m) ++ foldl (++) Map.empty ms"
    by (rule Cons.IH)
  ultimately show ?case by simp
qed

lemma merge_advances_map:
  "\<forall>d\<in>set ds. distinct (map fst d) \<Longrightarrow>
   distinct (map fst (merge_advances ds))
   \<and> map_of (merge_advances ds) = foldl (++) Map.empty (map map_of ds)"
proof (induction ds rule: merge_advances.induct)
  case 1
  then show ?case by simp
next
  case (2 a)
  then show ?case by simp
next
  case (3 a b rest)
  then have IH: "distinct (map fst (merge_advances (b # rest)))"
    "map_of (merge_advances (b # rest)) = foldl (++) Map.empty (map map_of (b # rest))"
    by simp_all
  from 3(2) have da: "distinct (map fst a)" by simp
  have "map_of (dict_update a (merge_advances (b # rest)))
      = map_of a ++ foldl (++) Map.empty (map map_of (b # rest))"
    by (simp only: map_of_dict_update [OF IH(1)] IH(2))
  also have "\<dots> = foldl (++) Map.empty (map map_of (a # b # rest))"
    using foldl_map_add [of "map_of a" "map map_of (b # rest)"] by simp
  finally show ?case using da by (simp add: distinct_dict_update)
qed

lemma merge_advances_subset: "set (merge_advances ds) \<subseteq> \<Union> (set ` set ds)"
proof (induction ds rule: merge_advances.induct)
  case 1
  then show ?case by simp
next
  case (2 a)
  then show ?case by simp
next
  case (3 a b rest)
  then show ?case using set_dict_update_subset [of a "merge_advances (b # rest)"] by auto
qed

subsection \<open>Unfolding \<open>convert_font\<close>\<close>

lemma convert_font_emits:
  assumes "convert_font (Suc depth) self w font_id = Inr (r, w')"
  shows "\<exists>old_path new_path olds cs w1.
     get_font_path self (files w) font_id False = Inr old_path
     \<and> get_font_path self (files w) (font_id @ suffix self) True = Inr new_path
     \<and> files w old_path = Some (FontJson olds)
     \<and> convert_all (convert_font depth self) self w olds = Inr (cs, w1)
     \<and> r = font_id @ suffix self
     \<and> w' = \<lparr>files = (files w1)(new_path \<mapsto> FontJson (emitted cs)),
             written = written w1 @ [new_path]\<rparr>"
proof -
  from assms have body:
    "convert_font_body (convert_font depth self) self w font_id = Inr (r, w')" by simp
  then obtain old_path where
    op: "get_font_path self (files w) font_id False = Inr old_path"
    by (cases "get_font_path self (files w) font_id False")
       (auto simp: convert_font_body_def Let_def)
  from body op obtain new_path where
    np: "get_font_path self (files w) (font_id @ suffix self) True = Inr new_path"
    by (cases "get_font_path self (files w) (font_id @ suffix self) True")
       (auto simp: convert_font_body_def Let_def)
  from body op np obtain olds where olds: "files w old_path = Some (FontJson olds)"
    by (auto simp: convert_font_body_def Let_def split: option.splits resource.splits)
  from body op np olds obtain cs w1 where
    cs: "convert_all (convert_font depth self) self w olds = Inr (cs, w1)"
    by (cases "convert_all (convert_font depth self) self w olds")
       (auto simp: convert_font_body_def Let_def convert_loop_all)
  have ml: "merge_loop (filter mergeable cs) =
      Inr (if filter mergeable cs = [] then []
           else [space_provider (merge_advances (map advances_of (filter mergeable cs)))])"
    by (rule merge_loop_spec) simp
  from body op np olds cs ml have
    "r = font_id @ suffix self
     \<and> w' = \<lparr>files = (files w1)(new_path \<mapsto> FontJson (emitted cs)),
             written = written w1 @ [new_path]\<rparr>"
    by (auto simp: convert_font_body_def Let_def convert_loop_all emitted_def)
  with op np olds cs show ?thesis by blast
qed

subsection \<open>The emitted definition\<close>

lemma advances_of_pfilter_update [simp]: "advances_of (c\<lparr>pfilter := f\<rparr>) = advances_of c"
  by (simp add: advances_of_def)

lemma advances_of_assure:
  "advances_of (assure_integers c) = map (\<lambda>(k, v). (k, assure_value v)) (advances_of c)"
  by (cases "kind c") (simp_all add: advances_of_def assure_integers_def)

lemma keys_assure: "map fst (advances_of (assure_integers c)) = map fst (advances_of c)"
  by (simp add: advances_of_assure case_prod_unfold comp_def)

lemma values_assure: "values_of (advances_of (assure_integers c)) = values_of (advances_of c)"
  by (simp add: advances_of_assure values_of_def case_prod_unfold comp_def assure_value_val)

lemma normalized_advances_assure: "normalized (advances_of (assure_integers c))"
  by (simp add: advances_of_assure normalized_assure)

lemma converted_distinct:
  assumes "convert_provider conv self w p = Inr (Some c, w')"
  shows "distinct (map fst (advances_of c))"
  using convert_provider_shape(2) [OF assms] by (auto simp: advances_of_def)

lemma convert_all_shape:
  "convert_all conv self w olds = Inr (cs, w') \<Longrightarrow>
   \<forall>c\<in>set cs. normalized (advances_of c) \<and> distinct (map fst (advances_of c))"
proof (induction olds arbitrary: w cs)
  case Nil
  then show ?case by simp
next
  case (Cons old olds)
  from Cons.prems obtain r w1 cs1 where
    r: "convert_provider conv self w old = Inr (r, w1)"
    and rest: "convert_all conv self w1 olds = Inr (cs1, w')"
    and cs: "cs = (case r of
                     None \<Rightarrow> []
                   | Some converted \<Rightarrow>
                       (case pfilter old of
                          None \<Rightarrow> [assure_integers converted]
                        | Some f \<Rightarrow> [(assure_integers converted)\<lparr>pfilter := Some f\<rparr>])) @ cs1"
    by (auto split: sum.splits)
  note IH = Cons.IH [OF rest]
  show ?case
  proof (cases r)
    case None
    then show ?thesis using IH cs by simp
  next
    case (Some c)
    with r have "distinct (map fst (advances_of c))" by (auto dest: converted_distinct)
    then show ?thesis using IH cs Some
      by (auto simp: normalized_advances_assure keys_assure split: option.splits)
  qed
qed

lemma merged_shape:
  assumes "\<forall>c\<in>set cs. normalized (advances_of c) \<and> distinct (map fst (advances_of c))"
  shows "distinct (map fst (merge_advances (map advances_of (filter mergeable cs))))"
    and "map_of (merge_advances (map advances_of (filter mergeable cs)))
         = foldl (++) Map.empty (map (\<lambda>p. map_of (advances_of p)) (filter mergeable cs))"
    and "normalized (merge_advances (map advances_of (filter mergeable cs)))"
proof -
  have d: "\<forall>d\<in>set (map advances_of (filter mergeable cs)). distinct (map fst d)"
    using assms by auto
  from merge_advances_map [OF d]
  show "distinct (map fst (merge_advances (map advances_of (filter mergeable cs))))"
    and "map_of (merge_advances (map advances_of (filter mergeable cs)))
         = foldl (++) Map.empty (map (\<lambda>p. map_of (advances_of p)) (filter mergeable cs))"
    by (simp_all add: comp_def)
  have "set (merge_advances (map advances_of (filter mergeable cs)))
      \<subseteq> \<Union> (set ` set (map advances_of (filter mergeable cs)))"
    by (rule merge_advances_subset)
  then show "normalized (merge_advances (map advances_of (filter mergeable cs)))"
    using assms by (fastforce simp: normalized_def list_all_iff)
qed

text \<open>
  C1. A conversion that returns has loaded a definition, converted its providers in
  order (\<open>convert_all\<close>) and written, under the new id, the converted providers that
  are not mergeable in their order, followed by one space provider if any converted
  provider is mergeable (filter-less and of kind space), and by nothing otherwise. The
  advance map of that provider has unique keys and is, as a map, the fold of the advance
  maps of the mergeable providers in their original order, a later map overwriting an
  earlier one at a shared character.
\<close>

theorem convert_font_merges:
  assumes "convert_font (Suc depth) self w font_id = Inr (r, w')"
  shows "\<exists>old_path new_path olds cs w1 merged.
     get_font_path self (files w) font_id False = Inr old_path
     \<and> files w old_path = Some (FontJson olds)
     \<and> convert_all (convert_font depth self) self w olds = Inr (cs, w1)
     \<and> get_font_path self (files w) (font_id @ suffix self) True = Inr new_path
     \<and> merged = merge_advances (map advances_of (filter mergeable cs))
     \<and> files w' new_path =
         Some (FontJson (filter (\<lambda>p. \<not> mergeable p) cs
                         @ (if filter mergeable cs = [] then [] else [space_provider merged])))
     \<and> distinct (map fst merged)
     \<and> map_of merged
         = foldl (++) Map.empty (map (\<lambda>p. map_of (advances_of p)) (filter mergeable cs))"
proof -
  from convert_font_emits [OF assms] obtain old_path new_path olds cs w1 where
    a: "get_font_path self (files w) font_id False = Inr old_path"
       "get_font_path self (files w) (font_id @ suffix self) True = Inr new_path"
       "files w old_path = Some (FontJson olds)"
       "convert_all (convert_font depth self) self w olds = Inr (cs, w1)"
    and w': "w' = \<lparr>files = (files w1)(new_path \<mapsto> FontJson (emitted cs)),
                  written = written w1 @ [new_path]\<rparr>"
    by blast
  note sh = merged_shape(1,2) [OF convert_all_shape [OF a(4)]]
  have "files w' new_path =
         Some (FontJson (filter (\<lambda>p. \<not> mergeable p) cs
                         @ (if filter mergeable cs = [] then []
                            else [space_provider
                                    (merge_advances (map advances_of (filter mergeable cs)))])))"
    using w' by (simp add: emitted_def)
  with a sh show ?thesis by blast
qed

text \<open>
  C5. In the definition that a conversion writes, every space provider (the filtered
  ones and the merged one) has an advance map in which each whole value is stored as an
  integer. The normalisation keeps every key and the numeric value of every entry, and
  returns a provider of another kind as it is.
\<close>

theorem emitted_space_providers_normalized:
  "(convert_font (Suc depth) self w font_id = Inr (r, w') \<longrightarrow>
      (\<exists>new_path out.
         get_font_path self (files w) (font_id @ suffix self) True = Inr new_path
         \<and> files w' new_path = Some (FontJson out)
         \<and> (\<forall>q\<in>set out. is_space q \<longrightarrow> normalized (advances_of q))))
   \<and> values_of (advances_of (assure_integers p)) = values_of (advances_of p)
   \<and> (\<not> is_space p \<longrightarrow> assure_integers p = p)"
proof (intro conjI impI)
  assume run: "convert_font (Suc depth) self w font_id = Inr (r, w')"
  from convert_font_emits [OF run] obtain old_path new_path olds cs w1 where
    a: "get_font_path self (files w) (font_id @ suffix self) True = Inr new_path"
       "convert_all (convert_font depth self) self w olds = Inr (cs, w1)"
    and w': "w' = \<lparr>files = (files w1)(new_path \<mapsto> FontJson (emitted cs)),
                  written = written w1 @ [new_path]\<rparr>"
    by blast
  note sh = convert_all_shape [OF a(2)]
  have "\<forall>q\<in>set (emitted cs). normalized (advances_of q)"
    using sh merged_shape(3) [OF sh] by (auto simp: emitted_def)
  moreover have "files w' new_path = Some (FontJson (emitted cs))" using w' by simp
  ultimately show "\<exists>new_path out.
         get_font_path self (files w) (font_id @ suffix self) True = Inr new_path
         \<and> files w' new_path = Some (FontJson out)
         \<and> (\<forall>q\<in>set out. is_space q \<longrightarrow> normalized (advances_of q))"
    using a(1) by blast
next
  show "values_of (advances_of (assure_integers p)) = values_of (advances_of p)"
    by (rule values_assure)
next
  assume "\<not> is_space p"
  then show "assure_integers p = p" by (rule assure_integers_other)
qed

lemma example_font_path:
  "get_font_path (example_converter mode) fs ''abc'' b = Inr ''p/assets/minecraft/font/abc.json''"
  "get_font_path (example_converter mode) fs ''abc_sp'' b = Inr ''p/assets/minecraft/font/abc_sp.json''"
  "get_font_path (example_converter mode) fs ''base'' b = Inr ''p/assets/minecraft/font/base.json''"
  "get_font_path (example_converter mode) fs ''base_sp'' b = Inr ''p/assets/minecraft/font/base_sp.json''"
  "get_font_path (example_converter mode) fs ''other'' b = Inr ''p/assets/minecraft/font/other.json''"
  "get_font_path (example_converter mode) fs ''other_sp'' b = Inr ''p/assets/minecraft/font/other_sp.json''"
  by (simp_all add: get_font_path_def get_resource_path_def path_join_def join_step_def)

lemma example_abc_all:
  "convert_all conv (example_converter ModeAscii) example_fonts
     [\<lparr>kind = Space [(97, PInt 1)], pfilter = None\<rparr>,
      \<lparr>kind = Space [(97, PInt 2), (98, PInt 3)], pfilter = None\<rparr>,
      \<lparr>kind = Space [(100, PFloat (5 / 2))], pfilter = Some ''f''\<rparr>,
      \<lparr>kind = Space [(99, PInt 4)], pfilter = None\<rparr>]
   = Inr ([space_provider [(97, PInt 1)], space_provider [(97, PInt 2), (98, PInt 3)],
           \<lparr>kind = Space [(100, PFloat (5 / 2))], pfilter = Some ''f''\<rparr>,
           space_provider [(99, PInt 4)]], example_fonts)"
  by (simp add: convert_provider_def convert_space_provider_def space_provider_def
        assure_integers_def assure_value_def trunc_def)

lemma example_abc_emitted:
  "emitted [space_provider [(97, PInt 1)], space_provider [(97, PInt 2), (98, PInt 3)],
           \<lparr>kind = Space [(100, PFloat (5 / 2))], pfilter = Some ''f''\<rparr>,
           space_provider [(99, PInt 4)]]
   = [\<lparr>kind = Space [(100, PFloat (5 / 2))], pfilter = Some ''f''\<rparr>,
      space_provider [(97, PInt 2), (98, PInt 3), (99, PInt 4)]]"
  by (simp add: emitted_def mergeable_def is_space_def space_provider_def advances_of_def)

lemma example_abc_run:
  "convert_font (Suc 0) (example_converter ModeAscii) example_fonts ''abc'' =
     Inr (''abc_sp'',
          \<lparr>files = (files example_fonts)(''p/assets/minecraft/font/abc_sp.json'' \<mapsto> FontJson
              [\<lparr>kind = Space [(100, PFloat (5 / 2))], pfilter = Some ''f''\<rparr>,
               space_provider [(97, PInt 2), (98, PInt 3), (99, PInt 4)]]),
           written = [''p/assets/minecraft/font/abc_sp.json'']\<rparr>)"
proof -
  have ml: "merge_loop [space_provider [(97, PInt 1)], space_provider [(97, PInt 2), (98, PInt 3)],
                        space_provider [(99, PInt 4)]]
      = Inr [space_provider [(97, PInt 2), (98, PInt 3), (99, PInt 4)]]"
    by (simp add: merge_loop_spec advances_of_def space_provider_def mergeable_def is_space_def)
  show ?thesis
    by (simp add: convert_font_body_def example_font_path convert_loop_all example_abc_all
          mergeable_def is_space_def ml [unfolded space_provider_def] space_provider_def
          del: convert_all.simps)
qed


text \<open>
  The providers \<open>{a: 1}\<close>, \<open>{a: 2, b: 3}\<close> and \<open>{c: 4}\<close>, with a filtered provider
  between them, merge into the single provider \<open>{a: 2, b: 3, c: 4}\<close>, written after the
  filtered one.
\<close>

theorem convert_font_merges_witness:
  "convert_font (Suc 0) (example_converter ModeAscii) example_fonts ''abc'' =
     Inr (''abc_sp'',
          \<lparr>files = (files example_fonts)(''p/assets/minecraft/font/abc_sp.json'' \<mapsto> FontJson
              [\<lparr>kind = Space [(100, PFloat (5 / 2))], pfilter = Some ''f''\<rparr>,
               space_provider [(97, PInt 2), (98, PInt 3), (99, PInt 4)]]),
           written = [''p/assets/minecraft/font/abc_sp.json'']\<rparr>)
   \<and> merge_advances [[(97, PInt 1)], [(97, PInt 2), (98, PInt 3)], [(99, PInt 4)]]
       = [(97, PInt 2), (98, PInt 3), (99, PInt 4)]
   \<and> map_of [(97::nat, PInt 2), (98, PInt 3), (99, PInt 4)]
       = foldl (++) Map.empty
           [map_of [(97, PInt 1)], map_of [(97, PInt 2), (98, PInt 3)], map_of [(99, PInt 4)]]"
proof -
  let ?cs = "[space_provider [(97, PInt 1)], space_provider [(97, PInt 2), (98, PInt 3)],
           \<lparr>kind = Space [(100, PFloat (5 / 2))], pfilter = Some ''f''\<rparr>,
           space_provider [(99, PInt 4)]]"
  from convert_font_merges [OF example_abc_run] obtain old_path olds cs w1 merged where
    a: "get_font_path (example_converter ModeAscii) (files example_fonts) ''abc'' False
          = Inr old_path"
    and b: "files example_fonts old_path = Some (FontJson olds)"
    and c: "convert_all (convert_font 0 (example_converter ModeAscii))
              (example_converter ModeAscii) example_fonts olds = Inr (cs, w1)"
    and m: "merged = merge_advances (map advances_of (filter mergeable cs))"
    and f: "map_of merged
         = foldl (++) Map.empty (map (\<lambda>p. map_of (advances_of p)) (filter mergeable cs))"
    by blast
  from a have "old_path = ''p/assets/minecraft/font/abc.json''"
    by (simp add: example_font_path)
  with b have "olds = [\<lparr>kind = Space [(97, PInt 1)], pfilter = None\<rparr>,
           \<lparr>kind = Space [(97, PInt 2), (98, PInt 3)], pfilter = None\<rparr>,
           \<lparr>kind = Space [(100, PFloat (5 / 2))], pfilter = Some ''f''\<rparr>,
           \<lparr>kind = Space [(99, PInt 4)], pfilter = None\<rparr>]" by simp
  with c have cs: "cs = ?cs" by (simp only: example_abc_all sum.inject prod.inject)
  have fm: "filter mergeable ?cs = [space_provider [(97, PInt 1)],
      space_provider [(97, PInt 2), (98, PInt 3)], space_provider [(99, PInt 4)]]"
    by (simp add: mergeable_def is_space_def space_provider_def)
  have ma: "merge_advances [[(97, PInt 1)], [(97, PInt 2), (98, PInt 3)], [(99, PInt 4)]]
       = [(97, PInt 2), (98, PInt 3), (99, PInt 4)]" by simp
  from m cs have "merged = [(97, PInt 2), (98, PInt 3), (99, PInt 4)]"
    by (simp only: fm) (simp add: ma)
  with f cs have "map_of [(97::nat, PInt 2), (98, PInt 3), (99, PInt 4)]
       = foldl (++) Map.empty
           [map_of [(97, PInt 1)], map_of [(97, PInt 2), (98, PInt 3)], map_of [(99, PInt 4)]]"
    by (simp only: fm) (simp del: map_of.simps foldl.simps add: foldl_Cons foldl_Nil)
  with example_abc_run ma show ?thesis by (simp only: simp_thms)
qed

text \<open>
  In the definition written for \<open>abc\<close>, the filtered \<open>{d: 2.5}\<close> keeps its float and
  the merged map holds integers.
\<close>

theorem emitted_space_providers_normalized_witness:
  "convert_font (Suc 0) (example_converter ModeAscii) example_fonts ''abc'' =
     Inr (''abc_sp'',
          \<lparr>files = (files example_fonts)(''p/assets/minecraft/font/abc_sp.json'' \<mapsto> FontJson
              [\<lparr>kind = Space [(100, PFloat (5 / 2))], pfilter = Some ''f''\<rparr>,
               space_provider [(97, PInt 2), (98, PInt 3), (99, PInt 4)]]),
           written = [''p/assets/minecraft/font/abc_sp.json'']\<rparr>)
   \<and> normalized [(100, PFloat (5 / 2))]
   \<and> normalized [(97, PInt 2), (98, PInt 3), (99, PInt 4)]
   \<and> values_of (advances_of (assure_integers (space_provider [(97, PFloat 2)])))
       = values_of [(97, PFloat 2)]
   \<and> assure_integers \<lparr>kind = Reference ''other_sp'', pfilter = None\<rparr>
       = \<lparr>kind = Reference ''other_sp'', pfilter = None\<rparr>"
proof -
  let ?w' = "\<lparr>files = (files example_fonts)(''p/assets/minecraft/font/abc_sp.json'' \<mapsto> FontJson
              [\<lparr>kind = Space [(100, PFloat (5 / 2))], pfilter = Some ''f''\<rparr>,
               space_provider [(97, PInt 2), (98, PInt 3), (99, PInt 4)]]),
           written = [''p/assets/minecraft/font/abc_sp.json'']\<rparr>"
  note inst = emitted_space_providers_normalized
    [where depth = 0 and self = "example_converter ModeAscii" and w = example_fonts
       and font_id = "''abc''" and r = "''abc_sp''" and w' = ?w'
       and p = "space_provider [(97, PFloat 2)]"]
  note inst2 = emitted_space_providers_normalized
    [where p = "\<lparr>kind = Reference ''other_sp'', pfilter = None\<rparr>"]
  from inst example_abc_run obtain new_path out where
    a: "get_font_path (example_converter ModeAscii) (files example_fonts)
          (''abc'' @ suffix (example_converter ModeAscii)) True = Inr new_path"
    and b: "files ?w' new_path = Some (FontJson out)"
    and c: "\<forall>q\<in>set out. is_space q \<longrightarrow> normalized (advances_of q)"
    by blast
  from a have "new_path = ''p/assets/minecraft/font/abc_sp.json''"
    by (simp add: example_font_path)
  with b have "out = [\<lparr>kind = Space [(100, PFloat (5 / 2))], pfilter = Some ''f''\<rparr>,
               space_provider [(97, PInt 2), (98, PInt 3), (99, PInt 4)]]" by simp
  with c have n: "normalized [(100, PFloat (5 / 2))]"
    "normalized [(97, PInt 2), (98, PInt 3), (99, PInt 4)]"
    by (simp_all add: is_space_def advances_of_def space_provider_def)
  from inst have v: "values_of (advances_of (assure_integers (space_provider [(97, PFloat 2)])))
       = values_of [(97, PFloat 2)]" by simp
  from inst2 have o: "assure_integers \<lparr>kind = Reference ''other_sp'', pfilter = None\<rparr>
       = \<lparr>kind = Reference ''other_sp'', pfilter = None\<rparr>"
    by (simp add: is_space_def)
  from example_abc_run n v o show ?thesis by (simp only: simp_thms)
qed

subsection \<open>Single providers in a definition\<close>

lemma convert_all_append:
  "convert_all conv self w (xs @ ys) =
     (case convert_all conv self w xs of
        Inl e \<Rightarrow> Inl e
      | Inr (cs1, w1) \<Rightarrow>
          (case convert_all conv self w1 ys of
             Inl e \<Rightarrow> Inl e
           | Inr (cs2, w2) \<Rightarrow> Inr (cs1 @ cs2, w2)))"
proof (induction xs arbitrary: w)
  case Nil
  then show ?case by (simp split: sum.splits)
next
  case (Cons x xs)
  show ?case
  proof (cases "convert_provider conv self w x")
    case (Inl e)
    then show ?thesis by simp
  next
    case (Inr rw)
    obtain r w1 where "rw = (r, w1)" by (cases rw)
    with Inr Cons.IH [of w1] show ?thesis
      by (simp split: sum.splits prod.splits)
  qed
qed

lemma convert_all_split:
  assumes "convert_all conv self w (pre @ old # post) = Inr (cs, w')"
  shows "\<exists>cs_pre w1 result w2 cs_post.
     convert_all conv self w pre = Inr (cs_pre, w1)
     \<and> convert_provider conv self w1 old = Inr (result, w2)
     \<and> convert_all conv self w2 post = Inr (cs_post, w')
     \<and> cs = cs_pre
            @ (case result of
                 None \<Rightarrow> []
               | Some converted \<Rightarrow>
                   (case pfilter old of
                      None \<Rightarrow> [assure_integers converted]
                    | Some f \<Rightarrow> [(assure_integers converted)\<lparr>pfilter := Some f\<rparr>]))
            @ cs_post"
proof -
  from assms obtain cs_pre w1 cs2 where
    pre: "convert_all conv self w pre = Inr (cs_pre, w1)"
    and rest: "convert_all conv self w1 (old # post) = Inr (cs2, w')"
    and cs: "cs = cs_pre @ cs2"
    by (auto simp: convert_all_append split: sum.splits)
  from rest obtain result w2 cs_post where
    "convert_provider conv self w1 old = Inr (result, w2)"
    "convert_all conv self w2 post = Inr (cs_post, w')"
    "cs2 = (case result of
                 None \<Rightarrow> []
               | Some converted \<Rightarrow>
                   (case pfilter old of
                      None \<Rightarrow> [assure_integers converted]
                    | Some f \<Rightarrow> [(assure_integers converted)\<lparr>pfilter := Some f\<rparr>]))
            @ cs_post"
    by (auto split: sum.splits)
  with pre cs show ?thesis by blast
qed

lemma emitted_keeps_others:
  assumes "\<not> mergeable q"
  shows "\<exists>before after. emitted (xs @ q # ys) = before @ q # after"
proof -
  have "emitted (xs @ q # ys) =
      filter (\<lambda>p. \<not> mergeable p) xs @ q #
        (filter (\<lambda>p. \<not> mergeable p) ys
         @ (if filter mergeable (xs @ q # ys) = [] then []
            else [space_provider
                    (merge_advances (map advances_of (filter mergeable (xs @ q # ys))))]))"
    using assms by (simp add: emitted_def)
  then show ?thesis by blast
qed


subsection \<open>Null results and unknown kinds\<close>



subsection \<open>References and the order of writes\<close>

lemma get_font_path_write:
  "get_font_path self fs font_id True = get_font_path self fs' font_id True"
  by (simp add: get_font_path_def get_resource_path_def Let_def split: sum.splits)

lemma convert_provider_written:
  assumes "\<forall>w f r w'. conv w f = Inr (r, w') \<longrightarrow> (\<exists>a. written w' = written w @ a)"
    and "convert_provider conv self w p = Inr (r, w')"
  shows "\<exists>a. written w' = written w @ a"
proof (cases "kind p")
  case (Reference R)
  with assms(2) obtain nid where "conv w R = Inr (nid, w')"
    by (auto simp: convert_provider_def convert_reference_provider_def split: sum.splits)
  then show ?thesis using assms(1) by blast
next
  case (Space a)
  with assms(2) show ?thesis by (simp add: convert_provider_def)
next
  case (Ttf f s ov sk)
  with assms(2) show ?thesis by (auto simp: convert_provider_def split: sum.splits)
next
  case (Bitmap f chars h)
  with assms(2) show ?thesis by (auto simp: convert_provider_def split: sum.splits)
next
  case (Unihex f ovs)
  with assms(2) show ?thesis by (auto simp: convert_provider_def split: sum.splits)
next
  case (OtherKind t)
  with assms(2) show ?thesis by (simp add: convert_provider_def)
qed

lemma convert_all_written:
  assumes "\<forall>w f r w'. conv w f = Inr (r, w') \<longrightarrow> (\<exists>a. written w' = written w @ a)"
    and "convert_all conv self w olds = Inr (cs, w')"
  shows "\<exists>a. written w' = written w @ a"
  using assms(2)
proof (induction olds arbitrary: w cs)
  case Nil
  then show ?case by simp
next
  case (Cons old olds)
  from Cons.prems obtain r w1 cs1 where
    one: "convert_provider conv self w old = Inr (r, w1)"
    and rest: "convert_all conv self w1 olds = Inr (cs1, w')"
    by (auto split: sum.splits)
  from convert_provider_written [OF assms(1) one] obtain a where "written w1 = written w @ a"
    by blast
  moreover from Cons.IH [OF rest] obtain b where "written w' = written w1 @ b" by blast
  ultimately have "written w' = written w @ (a @ b)" by simp
  then show ?case by blast
qed

lemma convert_font_written:
  "convert_font depth self w font_id = Inr (r, w') \<Longrightarrow>
   r = font_id @ suffix self
   \<and> (\<exists>a path out.
         get_font_path self fs (font_id @ suffix self) True = Inr path
         \<and> written w' = written w @ a @ [path]
         \<and> files w' path = Some (FontJson out))"
proof (induction depth arbitrary: w font_id r w')
  case 0
  then show ?case by simp
next
  case (Suc depth)
  have grow: "\<forall>w f r w'. convert_font depth self w f = Inr (r, w')
      \<longrightarrow> (\<exists>a. written w' = written w @ a)"
  proof (intro allI impI)
    fix w f r w' assume "convert_font depth self w f = Inr (r, w')"
    from Suc.IH [OF this] obtain a path where "written w' = written w @ a @ [path]" by blast
    then have "written w' = written w @ (a @ [path])" by simp
    then show "\<exists>a. written w' = written w @ a" by blast
  qed
  from convert_font_emits [OF Suc.prems] obtain new_path olds cs w1 where
    np: "get_font_path self (files w) (font_id @ suffix self) True = Inr new_path"
    and cs: "convert_all (convert_font depth self) self w olds = Inr (cs, w1)"
    and r: "r = font_id @ suffix self"
    and w': "w' = \<lparr>files = (files w1)(new_path \<mapsto> FontJson (emitted cs)),
                  written = written w1 @ [new_path]\<rparr>"
    by blast
  from convert_all_written [OF grow cs] obtain a where a: "written w1 = written w @ a"
    by blast
  have "get_font_path self fs (font_id @ suffix self) True = Inr new_path"
    using np get_font_path_write [of self fs "font_id @ suffix self" "files w"] by simp
  moreover have "written w' = written w @ a @ [new_path]" using w' a by simp
  moreover have "files w' new_path = Some (FontJson (emitted cs))" using w' by simp
  ultimately show ?case using r by blast
qed


subsection \<open>A deeper recursion limit keeps the result\<close>

lemma convert_provider_mono:
  assumes "\<forall>w f x. conv w f = Inr x \<longrightarrow> conv' w f = Inr x"
    and "convert_provider conv self w p = Inr y"
  shows "convert_provider conv' self w p = Inr y"
proof (cases "kind p")
  case (Reference R)
  with assms(2) obtain nid w1 where c: "conv w R = Inr (nid, w1)"
    and y: "y = (Some \<lparr>kind = Reference nid, pfilter = None\<rparr>, w1)"
    by (auto simp: convert_provider_def convert_reference_provider_def split: sum.splits)
  from c assms(1) have "conv' w R = Inr (nid, w1)" by blast
  then show ?thesis using Reference y
    by (simp add: convert_provider_def convert_reference_provider_def)
next
  case (Space a)
  with assms(2) show ?thesis by (simp add: convert_provider_def)
next
  case (Ttf f s ov sk)
  with assms(2) show ?thesis by (simp add: convert_provider_def)
next
  case (Bitmap f chars h)
  with assms(2) show ?thesis by (simp add: convert_provider_def)
next
  case (Unihex f ovs)
  with assms(2) show ?thesis by (simp add: convert_provider_def)
next
  case (OtherKind t)
  with assms(2) show ?thesis by (simp add: convert_provider_def)
qed

lemma convert_all_mono:
  assumes "\<forall>w f x. conv w f = Inr x \<longrightarrow> conv' w f = Inr x"
    and "convert_all conv self w olds = Inr y"
  shows "convert_all conv' self w olds = Inr y"
  using assms(2)
proof (induction olds arbitrary: w y)
  case Nil
  then show ?case by simp
next
  case (Cons old olds)
  from Cons.prems obtain r w1 cs1 w2 where
    one: "convert_provider conv self w old = Inr (r, w1)"
    and rest: "convert_all conv self w1 olds = Inr (cs1, w2)"
    by (auto split: sum.splits)
  from convert_provider_mono [OF assms(1) one] Cons.IH [OF rest] Cons.prems one rest
  show ?case by simp
qed

lemma convert_font_body_mono:
  assumes "\<forall>w f x. conv w f = Inr x \<longrightarrow> conv' w f = Inr x"
    and "convert_font_body conv self w font_id = Inr y"
  shows "convert_font_body conv' self w font_id = Inr y"
proof -
  from assms(2) obtain old_path where
    op: "get_font_path self (files w) font_id False = Inr old_path"
    by (cases "get_font_path self (files w) font_id False")
       (auto simp: convert_font_body_def Let_def)
  from assms(2) op obtain new_path where
    np: "get_font_path self (files w) (font_id @ suffix self) True = Inr new_path"
    by (cases "get_font_path self (files w) (font_id @ suffix self) True")
       (auto simp: convert_font_body_def Let_def)
  from assms(2) op np obtain olds where olds: "files w old_path = Some (FontJson olds)"
    by (auto simp: convert_font_body_def Let_def split: option.splits resource.splits)
  from assms(2) op np olds obtain cs w1 where
    cs: "convert_all conv self w olds = Inr (cs, w1)"
    by (cases "convert_all conv self w olds")
       (auto simp: convert_font_body_def Let_def convert_loop_all)
  from convert_all_mono [OF assms(1) cs] have cs': "convert_all conv' self w olds = Inr (cs, w1)" .
  from assms(2) op np olds cs cs' show ?thesis
    by (simp add: convert_font_body_def Let_def convert_loop_all)
qed

lemma convert_font_Suc_mono:
  "convert_font depth self w font_id = Inr y \<Longrightarrow> convert_font (Suc depth) self w font_id = Inr y"
proof (induction depth arbitrary: w font_id y)
  case 0
  then show ?case by simp
next
  case (Suc depth)
  have le: "\<forall>w f x. convert_font depth self w f = Inr x
      \<longrightarrow> convert_font (Suc depth) self w f = Inr x"
    using Suc.IH by blast
  from Suc.prems have "convert_font_body (convert_font depth self) self w font_id = Inr y"
    by (simp only: convert_font.simps(2))
  from convert_font_body_mono [OF le this]
  have "convert_font_body (convert_font (Suc depth) self) self w font_id = Inr y" .
  moreover have "convert_font (Suc (Suc depth)) self w font_id
      = convert_font_body (convert_font (Suc depth) self) self w font_id"
    by (rule convert_font.simps(2))
  ultimately show ?case by (simp only:)
qed

lemma convert_font_mono:
  "convert_font depth self w font_id = Inr y \<Longrightarrow> depth \<le> d
     \<Longrightarrow> convert_font d self w font_id = Inr y"
proof (induction d)
  case 0
  then show ?case by simp
next
  case (Suc d)
  show ?case
  proof (cases "depth = Suc d")
    case True
    with Suc.prems show ?thesis by simp
  next
    case False
    with Suc.prems have "depth \<le> d" by simp
    from Suc.IH [OF Suc.prems(1) this] show ?thesis by (rule convert_font_Suc_mono)
  qed
qed

lemma emitted_reference:
  assumes "kind q = Reference R"
  shows "q \<in> set (emitted (xs @ q # ys))"
proof -
  have "\<not> mergeable q" using assms by (simp add: mergeable_def is_space_def)
  from emitted_keeps_others [OF this, of xs ys] show ?thesis by auto
qed

text \<open>
  C8. A conversion that returns gives the font id followed by the suffix, and returns
  the same under every deeper recursion limit. For each reference provider naming
  \<open>R\<close> in the loaded definition, the nested conversion of \<open>R\<close> returned \<open>R\<close> with the
  suffix and left a definition stored under the path of that id; that path was written
  before the path of the new font, which is written last; and the written definition
  holds a reference provider to \<open>R\<close> with the suffix, carrying the filter of its
  source.
\<close>

theorem convert_font_references:
  assumes "convert_font (Suc depth) self w font_id = Inr (r, w')"
  shows "r = font_id @ suffix self
   \<and> (\<forall>d. Suc depth \<le> d \<longrightarrow> convert_font d self w font_id = Inr (r, w'))
   \<and> (\<forall>old_path pre p post R.
        get_font_path self (files w) font_id False = Inr old_path
        \<and> files w old_path = Some (FontJson (pre @ p # post))
        \<and> kind p = Reference R \<longrightarrow>
        (\<exists>w1 w2 path_R path_F a b out out_R.
           convert_font depth self w1 R = Inr (R @ suffix self, w2)
           \<and> get_font_path self (files w) (R @ suffix self) True = Inr path_R
           \<and> files w2 path_R = Some (FontJson out_R)
           \<and> get_font_path self (files w) (font_id @ suffix self) True = Inr path_F
           \<and> written w' = written w @ a @ path_R # b @ [path_F]
           \<and> files w' path_F = Some (FontJson out)
           \<and> (\<exists>q\<in>set out. kind q = Reference (R @ suffix self) \<and> pfilter q = pfilter p)))"
proof (intro conjI allI impI)
  show "r = font_id @ suffix self"
    using convert_font_written [OF assms] by blast
next
  fix d assume "Suc depth \<le> d"
  with assms show "convert_font d self w font_id = Inr (r, w')" by (rule convert_font_mono)
next
  fix old_path pre p post R
  assume h: "get_font_path self (files w) font_id False = Inr old_path
        \<and> files w old_path = Some (FontJson (pre @ p # post))
        \<and> kind p = Reference R"
  have grow: "\<forall>w f r w'. convert_font depth self w f = Inr (r, w')
      \<longrightarrow> (\<exists>a. written w' = written w @ a)"
  proof (intro allI impI)
    fix w f r w' assume "convert_font depth self w f = Inr (r, w')"
    from convert_font_written [OF this] obtain a path where
      "written w' = written w @ a @ [path]" by blast
    then have "written w' = written w @ (a @ [path])" by simp
    then show "\<exists>a. written w' = written w @ a" by blast
  qed
  from convert_font_emits [OF assms] h obtain path_F cs w3 where
    np: "get_font_path self (files w) (font_id @ suffix self) True = Inr path_F"
    and cs: "convert_all (convert_font depth self) self w (pre @ p # post) = Inr (cs, w3)"
    and w': "w' = \<lparr>files = (files w3)(path_F \<mapsto> FontJson (emitted cs)),
                  written = written w3 @ [path_F]\<rparr>"
    by auto
  from convert_all_split [OF cs] obtain cs_pre w1 result w2 cs_post where
    pre: "convert_all (convert_font depth self) self w pre = Inr (cs_pre, w1)"
    and one: "convert_provider (convert_font depth self) self w1 p = Inr (result, w2)"
    and post: "convert_all (convert_font depth self) self w2 post = Inr (cs_post, w3)"
    and eq: "cs = cs_pre
            @ (case result of
                 None \<Rightarrow> []
               | Some converted \<Rightarrow>
                   (case pfilter p of
                      None \<Rightarrow> [assure_integers converted]
                    | Some f \<Rightarrow> [(assure_integers converted)\<lparr>pfilter := Some f\<rparr>]))
            @ cs_post"
    by blast
  from one h obtain nid where
    nested: "convert_font depth self w1 R = Inr (nid, w2)"
    and result: "result = Some \<lparr>kind = Reference nid, pfilter = None\<rparr>"
    by (auto simp: convert_provider_def convert_reference_provider_def split: sum.splits)
  from convert_font_written [OF nested, of "files w"] obtain a2 path_R out_R where
    nid: "nid = R @ suffix self"
    and pr: "get_font_path self (files w) (R @ suffix self) True = Inr path_R"
    and wr: "written w2 = written w1 @ a2 @ [path_R]"
    and fr: "files w2 path_R = Some (FontJson out_R)"
    by blast
  from convert_all_written [OF grow pre] obtain a1 where a1: "written w1 = written w @ a1"
    by blast
  from convert_all_written [OF grow post] obtain a3 where a3: "written w3 = written w2 @ a3"
    by blast
  have wr': "written w' = written w @ (a1 @ a2) @ path_R # a3 @ [path_F]"
    using w' a1 a3 wr by simp
  define q where "q = (case pfilter p of
                         None \<Rightarrow> \<lparr>kind = Reference nid, pfilter = None\<rparr>
                       | Some f \<Rightarrow> \<lparr>kind = Reference nid, pfilter = Some f\<rparr>)"
  have qk: "kind q = Reference (R @ suffix self)" "pfilter q = pfilter p"
    using nid by (simp_all add: q_def split: option.splits)
  have "cs = cs_pre @ q # cs_post"
    using eq result by (simp add: q_def assure_integers_def split: option.splits)
  with emitted_reference [OF qk(1), of cs_pre cs_post] have "q \<in> set (emitted cs)" by simp
  moreover have "files w' path_F = Some (FontJson (emitted cs))" using w' by simp
  ultimately have "\<exists>out. files w' path_F = Some (FontJson out)
      \<and> (\<exists>q\<in>set out. kind q = Reference (R @ suffix self) \<and> pfilter q = pfilter p)"
    using qk by blast
  with nested nid pr fr np wr'
  show "\<exists>w1 w2 path_R path_F a b out out_R.
           convert_font depth self w1 R = Inr (R @ suffix self, w2)
           \<and> get_font_path self (files w) (R @ suffix self) True = Inr path_R
           \<and> files w2 path_R = Some (FontJson out_R)
           \<and> get_font_path self (files w) (font_id @ suffix self) True = Inr path_F
           \<and> written w' = written w @ a @ path_R # b @ [path_F]
           \<and> files w' path_F = Some (FontJson out)
           \<and> (\<exists>q\<in>set out. kind q = Reference (R @ suffix self) \<and> pfilter q = pfilter p)"
    by blast
qed

subsection \<open>Runs of the examples\<close>






lemma example_other_run:
  "convert_font (Suc 0) (example_converter ModeAscii) example_references ''other'' =
     Inr (''other_sp'',
          \<lparr>files = (files example_references)(''p/assets/minecraft/font/other_sp.json'' \<mapsto>
              FontJson [space_provider [(97, PInt 1)]]),
           written = [''p/assets/minecraft/font/other_sp.json'']\<rparr>)"
proof -
  have all: "convert_all (convert_font 0 (example_converter ModeAscii))
      (example_converter ModeAscii) example_references
      [\<lparr>kind = Space [(97, PInt 1)], pfilter = None\<rparr>]
     = Inr ([space_provider [(97, PInt 1)]], example_references)"
    by (simp add: convert_provider_def convert_space_provider_def space_provider_def
          assure_integers_def assure_value_def trunc_def)
  have ml: "merge_loop [space_provider [(97, PInt 1)]] = Inr [space_provider [(97, PInt 1)]]"
    by (simp add: merge_loop.simps)
  show ?thesis
    by (simp add: convert_font_body_def example_font_path convert_loop_all all
          mergeable_def is_space_def ml [unfolded space_provider_def] space_provider_def
          del: convert_all.simps)
qed

lemma example_base_run:
  "convert_font (Suc (Suc 0)) (example_converter ModeAscii) example_references ''base'' =
     Inr (''base_sp'',
          \<lparr>files = (files example_references)
             (''p/assets/minecraft/font/other_sp.json'' \<mapsto>
                FontJson [space_provider [(97, PInt 1)]],
              ''p/assets/minecraft/font/base_sp.json'' \<mapsto>
                FontJson [\<lparr>kind = Reference ''other_sp'', pfilter = None\<rparr>]),
           written = [''p/assets/minecraft/font/other_sp.json'',
                      ''p/assets/minecraft/font/base_sp.json'']\<rparr>)"
proof -
  have all: "convert_all (convert_font (Suc 0) (example_converter ModeAscii))
      (example_converter ModeAscii) example_references
      [\<lparr>kind = Reference ''other'', pfilter = None\<rparr>]
     = Inr ([\<lparr>kind = Reference ''other_sp'', pfilter = None\<rparr>],
          \<lparr>files = (files example_references)(''p/assets/minecraft/font/other_sp.json'' \<mapsto>
              FontJson [space_provider [(97, PInt 1)]]),
           written = [''p/assets/minecraft/font/other_sp.json'']\<rparr>)"
    by (simp add: convert_provider_def convert_reference_provider_def example_other_run
          assure_integers_def del: convert_font.simps)
  have ml: "merge_loop [] = Inr []" by (simp add: merge_loop.simps)
  have "convert_font (Suc (Suc 0)) (example_converter ModeAscii) example_references ''base''
      = convert_font_body (convert_font (Suc 0) (example_converter ModeAscii))
          (example_converter ModeAscii) example_references ''base''"
    by (rule convert_font.simps(2))
  also have "\<dots> = Inr (''base_sp'',
          \<lparr>files = (files example_references)
             (''p/assets/minecraft/font/other_sp.json'' \<mapsto>
                FontJson [space_provider [(97, PInt 1)]],
              ''p/assets/minecraft/font/base_sp.json'' \<mapsto>
                FontJson [\<lparr>kind = Reference ''other_sp'', pfilter = None\<rparr>]),
           written = [''p/assets/minecraft/font/other_sp.json'',
                      ''p/assets/minecraft/font/base_sp.json'']\<rparr>)"
    by (simp add: convert_font_body_def example_font_path convert_loop_all all
          mergeable_def is_space_def ml space_provider_def
          del: convert_all.simps convert_font.simps)
  finally show ?thesis .
qed

text \<open>
  Converting \<open>base\<close>, which refers to \<open>other\<close>, writes \<open>other_sp\<close> and then
  \<open>base_sp\<close>.
\<close>

theorem convert_font_references_witness:
  "convert_font (Suc (Suc 0)) (example_converter ModeAscii) example_references ''base'' =
     Inr (''base_sp'',
          \<lparr>files = (files example_references)
             (''p/assets/minecraft/font/other_sp.json'' \<mapsto>
                FontJson [space_provider [(97, PInt 1)]],
              ''p/assets/minecraft/font/base_sp.json'' \<mapsto>
                FontJson [\<lparr>kind = Reference ''other_sp'', pfilter = None\<rparr>]),
           written = [''p/assets/minecraft/font/other_sp.json'',
                      ''p/assets/minecraft/font/base_sp.json'']\<rparr>)
   \<and> (\<exists>a b. [''p/assets/minecraft/font/other_sp.json'', ''p/assets/minecraft/font/base_sp.json'']
          = a @ ''p/assets/minecraft/font/other_sp.json'' # b
              @ [''p/assets/minecraft/font/base_sp.json''])
   \<and> convert_font 5 (example_converter ModeAscii) example_references ''base'' =
     Inr (''base_sp'',
          \<lparr>files = (files example_references)
             (''p/assets/minecraft/font/other_sp.json'' \<mapsto>
                FontJson [space_provider [(97, PInt 1)]],
              ''p/assets/minecraft/font/base_sp.json'' \<mapsto>
                FontJson [\<lparr>kind = Reference ''other_sp'', pfilter = None\<rparr>]),
           written = [''p/assets/minecraft/font/other_sp.json'',
                      ''p/assets/minecraft/font/base_sp.json'']\<rparr>)"
proof -
  let ?w' = "\<lparr>files = (files example_references)
             (''p/assets/minecraft/font/other_sp.json'' \<mapsto>
                FontJson [space_provider [(97, PInt 1)]],
              ''p/assets/minecraft/font/base_sp.json'' \<mapsto>
                FontJson [\<lparr>kind = Reference ''other_sp'', pfilter = None\<rparr>]),
           written = [''p/assets/minecraft/font/other_sp.json'',
                      ''p/assets/minecraft/font/base_sp.json'']\<rparr>"
  note inst = convert_font_references [OF example_base_run]
  from inst have deeper: "convert_font 5 (example_converter ModeAscii) example_references ''base''
      = Inr (''base_sp'', ?w')"
    by simp
  have loaded: "get_font_path (example_converter ModeAscii) (files example_references)
        ''base'' False = Inr ''p/assets/minecraft/font/base.json''
      \<and> files example_references ''p/assets/minecraft/font/base.json''
          = Some (FontJson ([] @ \<lparr>kind = Reference ''other'', pfilter = None\<rparr> # []))
      \<and> kind \<lparr>kind = Reference ''other'', pfilter = None\<rparr> = Reference ''other''"
    by (simp add: example_font_path)
  from inst loaded obtain path_R path_F a b where
    pr: "get_font_path (example_converter ModeAscii) (files example_references)
           (''other'' @ suffix (example_converter ModeAscii)) True = Inr path_R"
    and pf: "get_font_path (example_converter ModeAscii) (files example_references)
           (''base'' @ suffix (example_converter ModeAscii)) True = Inr path_F"
    and wr: "written ?w' = written example_references @ a @ path_R # b @ [path_F]"
    by blast
  from pr have "path_R = ''p/assets/minecraft/font/other_sp.json''"
    by (simp add: example_font_path)
  moreover from pf have "path_F = ''p/assets/minecraft/font/base_sp.json''"
    by (simp add: example_font_path)
  ultimately have "[''p/assets/minecraft/font/other_sp.json'', ''p/assets/minecraft/font/base_sp.json'']
          = a @ ''p/assets/minecraft/font/other_sp.json'' # b
              @ [''p/assets/minecraft/font/base_sp.json'']"
    using wr by simp
  then have "\<exists>a b. [''p/assets/minecraft/font/other_sp.json'', ''p/assets/minecraft/font/base_sp.json'']
          = a @ ''p/assets/minecraft/font/other_sp.json'' # b
              @ [''p/assets/minecraft/font/base_sp.json'']"
    by blast
  with example_base_run deeper show ?thesis by (simp only: simp_thms)
qed


end
